theory Spec2Isabelle
  imports Main "HOL-Library.Word"
begin

unbundle bit_operations_syntax

section \<open>Byte buffers\<close>

text \<open>
  A Node \<open>Buffer\<close> is modelled by the list of its bytes. The functions of this section
  model the methods of \<open>Buffer\<close> that \<open>id3-tag.ts\<close> calls; a method that throws
  \<open>RangeError\<close> in Node returns \<open>Inl RangeError\<close> here.
\<close>

type_synonym byte = "8 word"
type_synonym buffer = "byte list"

datatype error =
    RangeError        \<comment> \<open>thrown by \<open>readUInt32BE\<close>, \<open>Buffer.alloc\<close> and \<open>copy\<close>\<close>
  | SizeNotFourBytes  \<comment> \<open>\<open>decodeSize\<close> applied to a buffer that is not 4 bytes long\<close>

text \<open>\<open>const subarray = (buffer, offset, size) => buffer.subarray(offset, offset + size)\<close>;
  \<open>Buffer.subarray\<close> clamps both ends to the buffer.\<close>

definition subarray :: "buffer \<Rightarrow> nat \<Rightarrow> nat \<Rightarrow> buffer" where
  "subarray buffer offset len = take len (drop offset buffer)"

text \<open>\<open>buffer[i]\<close> as the operand of a bitwise operator: an index past the end reads
  \<open>undefined\<close>, which \<open>|\<close> converts to 0.\<close>

definition byteOrZero :: "buffer \<Rightarrow> nat \<Rightarrow> byte" where
  "byteOrZero buffer i = (if i < length buffer then buffer ! i else 0)"

text \<open>\<open>buffer.readUIntBE(offset, byteLength)\<close>, big-endian, where the caller has already
  checked that the bytes are there.\<close>

definition readUIntBE :: "buffer \<Rightarrow> nat \<Rightarrow> nat \<Rightarrow> nat" where
  "readUIntBE buffer offset byteLength =
     foldl (\<lambda>acc b. acc * 256 + unat b) 0 (take byteLength (drop offset buffer))"

text \<open>\<open>buffer.readUInt32BE(offset)\<close> throws when fewer than 4 bytes follow \<open>offset\<close>.\<close>

definition readUInt32BE :: "buffer \<Rightarrow> nat \<Rightarrow> error + nat" where
  "readUInt32BE buffer offset =
     (if offset + 4 \<le> length buffer then Inr (readUIntBE buffer offset 4)
      else Inl RangeError)"

text \<open>\<open>Buffer.alloc(size)\<close>: a zero-filled buffer; a negative size throws.\<close>

definition alloc :: "int \<Rightarrow> error + buffer" where
  "alloc len = (if len < 0 then Inl RangeError else Inr (replicate (nat len) 0))"

text \<open>\<open>source.copy(target, targetStart, sourceStart)\<close>: the bytes of \<open>source\<close> from
  \<open>sourceStart\<close> on are written into \<open>target\<close> at \<open>targetStart\<close>, as many as fit; the
  result is the target after the call. \<open>copyInto\<close> is the copying itself; \<open>copy\<close> adds
  Node's check of its argument: a \<open>sourceStart\<close> beyond the end of the source throws.\<close>

definition copyInto :: "buffer \<Rightarrow> buffer \<Rightarrow> nat \<Rightarrow> nat \<Rightarrow> buffer" where
  "copyInto source target targetStart sourceStart =
     (let src = take (length target - targetStart) (drop sourceStart source)
      in take targetStart target @ src @ drop (targetStart + length src) target)"

definition copy :: "buffer \<Rightarrow> buffer \<Rightarrow> nat \<Rightarrow> nat \<Rightarrow> error + buffer" where
  "copy source target targetStart sourceStart =
     (if length source < sourceStart then Inl RangeError
      else Inr (copyInto source target targetStart sourceStart))"

text \<open>\<open>buffer.writeUInt16BE(value, offset)\<close> on a buffer that holds both bytes.\<close>

definition writeUInt16BE :: "buffer \<Rightarrow> nat \<Rightarrow> nat \<Rightarrow> buffer" where
  "writeUInt16BE buffer val offset =
     buffer[offset := word_of_nat (val div 256), offset + 1 := word_of_nat (val mod 256)]"

text \<open>\<open>buffer.write(string, offset)\<close> for an ASCII string given by its bytes: as many
  bytes as fit are written.\<close>

definition writeString :: "buffer \<Rightarrow> buffer \<Rightarrow> nat \<Rightarrow> buffer" where
  "writeString buffer str offset =
     (let src = take (length buffer - offset) str
      in take offset buffer @ src @ drop (offset + length src) buffer)"

text \<open>\<open>buffer.indexOf(value, byteOffset)\<close> for a non-empty \<open>value\<close>: the least index from
  \<open>byteOffset\<close> on at which \<open>value\<close> occurs; \<open>None\<close> is Node's \<open>-1\<close>.\<close>

function indexOf :: "buffer \<Rightarrow> buffer \<Rightarrow> nat \<Rightarrow> nat option" where
  "indexOf buffer val byteOffset =
     (if length buffer < byteOffset + length val then None
      else if take (length val) (drop byteOffset buffer) = val then Some byteOffset
      else indexOf buffer val (Suc byteOffset))"
  by pat_completeness auto
termination
  by (relation "measure (\<lambda>(buffer, val, byteOffset). Suc (length buffer) - byteOffset)") auto

declare indexOf.simps [simp del]

section \<open>Synchsafe sizes (\<open>util-size\<close>)\<close>

text \<open>Modelled from the spec: \<open>encodeSize\<close> of \<open>util-size\<close>, which is not among the
  sources. Section 4.1: it splits \<open>n\<close> into 7-bit groups, most significant group first,
  each stored in a byte with bit 7 forced to 0; four bytes.\<close>

definition encodeSize :: "nat \<Rightarrow> buffer" where
  "encodeSize n =
     [word_of_nat ((n div 2 ^ 21) mod 128), word_of_nat ((n div 2 ^ 14) mod 128),
      word_of_nat ((n div 2 ^ 7) mod 128), word_of_nat (n mod 128)]"

text \<open>Modelled from the spec: \<open>decodeSize\<close> of \<open>util-size\<close>, which is not among the
  sources. Section 4.1: on 4 bytes it concatenates the low 7 bits of each byte, most
  significant first. The spec defines it on 4 bytes only; on any other buffer the model
  has no value.\<close>

definition decodeSize :: "buffer \<Rightarrow> nat option" where
  "decodeSize encodedSize =
     (case encodedSize of
        [b0, b1, b2, b3] \<Rightarrow>
          Some (((unat (b0 AND 0x7F) * 128 + unat (b1 AND 0x7F)) * 128
                 + unat (b2 AND 0x7F)) * 128 + unat (b3 AND 0x7F))
      | _ \<Rightarrow> None)"

section \<open>The tag header (\<open>id3-tag.ts\<close>)\<close>

text \<open>The constant \<open>Header\<close>: the identifier "ID3", the header's size and the offsets of
  its fields.\<close>

definition Header_identifier :: buffer where
  "Header_identifier = [0x49, 0x44, 0x33]"

definition Header_size :: nat where
  "Header_size = 10"

definition offset_identifier :: nat where "offset_identifier = 0"
definition offset_version :: nat where "offset_version = 3"
definition offset_revision :: nat where "offset_revision = 4"
definition offset_flags :: nat where "offset_flags = 5"
definition offset_size :: nat where "offset_size = 6"

lemmas Header_defs =
  Header_identifier_def Header_size_def offset_identifier_def offset_version_def
  offset_revision_def offset_flags_def offset_size_def

text \<open>\<open>isValidEncodedSize\<close>: the four bytes, ored together, must not have bit 7 set.\<close>

definition isValidEncodedSize :: "buffer \<Rightarrow> bool" where
  "isValidEncodedSize encodedSize \<longleftrightarrow>
     (byteOrZero encodedSize 0 OR byteOrZero encodedSize 1 OR
      byteOrZero encodedSize 2 OR byteOrZero encodedSize 3) AND 128 = 0"

text \<open>\<open>isValidId3Header\<close>, check by check in the order of the source.\<close>

definition isValidId3Header :: "buffer \<Rightarrow> bool" where
  "isValidId3Header buffer =
     (if length buffer < Header_size then False
      else if readUIntBE buffer offset_identifier 3 \<noteq> 0x494433 then False
      else let majorVersion = buffer ! offset_version;
               revision = buffer ! offset_revision
           in if majorVersion = 0xFF \<or> revision = 0xFF then False
              else if majorVersion \<notin> set [0x02, 0x03, 0x04] then False
              else isValidEncodedSize (subarray buffer offset_size 4))"

lemma indexOf_Some_bounds:
  "indexOf buffer val i = Some p \<Longrightarrow> i \<le> p \<and> p + length val \<le> length buffer"
proof (induction buffer val i rule: indexOf.induct)
  case (1 buffer val byteOffset)
  from "1.prems" show ?case
    by (subst (asm) indexOf.simps) (auto split: if_splits dest: "1.IH")
qed

text \<open>
  \<open>findId3TagPosition\<close>. The source keeps \<open>position\<close> in a variable that starts at
  \<open>-1\<close> and searches from \<open>position + 1\<close> in a do-while loop; \<open>findFrom\<close> is that loop
  with \<open>start = position + 1\<close>, and \<open>None\<close> is the source's \<open>-1\<close>.
\<close>

function findFrom :: "buffer \<Rightarrow> nat \<Rightarrow> nat option" where
  "findFrom buffer start =
     (case indexOf buffer Header_identifier start of
        None \<Rightarrow> None
      | Some position \<Rightarrow>
          if isValidId3Header (drop position buffer) then Some position
          else findFrom buffer (position + 1))"
  by pat_completeness auto
termination
  by (relation "measure (\<lambda>(buffer, start). length buffer - start)")
     (auto dest!: indexOf_Some_bounds simp: Header_identifier_def)

declare findFrom.simps [simp del]

definition findId3TagPosition :: "buffer \<Rightarrow> nat option" where
  "findId3TagPosition buffer = findFrom buffer 0"

text \<open>\<open>embedFramesInId3Tag\<close>. \<open>Buffer.alloc(10)\<close> filled with 0, then the four writes of
  the source in their order.\<close>

definition embedFramesInId3Tag :: "buffer \<Rightarrow> buffer" where
  "embedFramesInId3Tag frames =
     (let header0 = replicate Header_size 0;
          header1 = writeString header0 Header_identifier offset_identifier;
          header2 = writeUInt16BE header1 0x0300 offset_version;
          header3 = writeUInt16BE header2 0x0000 offset_flags;
          header4 = copyInto (encodeSize (length frames)) header3 offset_size 0
      in header4 @ frames)"

text \<open>\<open>removeId3Tag\<close> returns a buffer or \<open>false\<close>.\<close>

datatype removed = Buf buffer | JsFalse

definition removeId3Tag :: "buffer \<Rightarrow> error + removed" where
  "removeId3Tag data =
     (case findId3TagPosition data of
        None \<Rightarrow> Inr (Buf data)
      | Some tagPosition \<Rightarrow>
          let encodedSize = subarray data (tagPosition + offset_size) 4
          in if \<not> isValidEncodedSize encodedSize then Inr JsFalse
             else if length data \<ge> tagPosition + Header_size then
               (case decodeSize encodedSize of
                  None \<Rightarrow> Inl SizeNotFourBytes
                | Some decoded \<Rightarrow>
                    Inr (Buf (take tagPosition data
                              @ drop (tagPosition + decoded + Header_size) data)))
             else Inr (Buf data))"

text \<open>\<open>parseTagHeaderFlags\<close> returns an object that has some of four boolean
  properties; a property the object does not have is \<open>None\<close>, and \<open>{}\<close> is \<open>no_flags\<close>.\<close>

record tag_flags =
  unsynchronisation :: "bool option"
  extendedHeader :: "bool option"
  experimentalIndicator :: "bool option"
  footerPresent :: "bool option"

definition no_flags :: tag_flags where
  "no_flags = \<lparr>unsynchronisation = None, extendedHeader = None,
               experimentalIndicator = None, footerPresent = None\<rparr>"

definition parseTagHeaderFlags :: "buffer \<Rightarrow> tag_flags" where
  "parseTagHeaderFlags header =
     (if length header < Header_size then no_flags
      else let version = header ! 3; flagsByte = header ! 5
           in if version = 3 then
                \<lparr>unsynchronisation = Some (flagsByte AND 128 \<noteq> 0),
                 extendedHeader = Some (flagsByte AND 64 \<noteq> 0),
                 experimentalIndicator = Some (flagsByte AND 32 \<noteq> 0),
                 footerPresent = None\<rparr>
              else if version = 4 then
                \<lparr>unsynchronisation = Some (flagsByte AND 128 \<noteq> 0),
                 extendedHeader = Some (flagsByte AND 64 \<noteq> 0),
                 experimentalIndicator = Some (flagsByte AND 32 \<noteq> 0),
                 footerPresent = Some (flagsByte AND 16 \<noteq> 0)\<rparr>
              else no_flags)"

text \<open>The extended header's size as \<open>getId3TagBody\<close> computes it (the variable
  \<open>extendedHeaderSize\<close> and the \<open>if\<close> that sets it). \<open>if (tagFlags.extendedHeader)\<close> is
  taken when the property is there and true.\<close>

definition extendedHeaderSize :: "buffer \<Rightarrow> byte \<Rightarrow> tag_flags \<Rightarrow> error + nat" where
  "extendedHeaderSize tagData version tagFlags =
     (if extendedHeader tagFlags = Some True then
        if version = 3 then
          (case readUInt32BE tagData Header_size of
             Inl e \<Rightarrow> Inl e
           | Inr n \<Rightarrow> Inr (4 + n))
        else if version = 4 then
          (case decodeSize (subarray tagData Header_size 4) of
             None \<Rightarrow> Inl SizeNotFourBytes
           | Some n \<Rightarrow> Inr n)
        else Inr 0
      else Inr 0)"

text \<open>\<open>getId3TagBody\<close> returns \<open>undefined\<close> (\<open>Inr None\<close>) or the version byte and the
  body. \<open>bodySize\<close> can be negative, so it is an \<open>int\<close>. A located tag has its ten
  header bytes in the buffer, so \<open>tagHeader[3]\<close> is a byte.\<close>

record tag_body =
  body_version :: byte
  body_buffer :: buffer

definition getId3TagBody :: "buffer \<Rightarrow> error + tag_body option" where
  "getId3TagBody buffer =
     (case findId3TagPosition buffer of
        None \<Rightarrow> Inr None
      | Some tagPosition \<Rightarrow>
          let encodedSize = subarray buffer (tagPosition + offset_size) 4
          in (case decodeSize encodedSize of
                None \<Rightarrow> Inl SizeNotFourBytes
              | Some decoded \<Rightarrow>
                  let tagSize = Header_size + decoded;
                      tagData = subarray buffer tagPosition tagSize;
                      tagHeader = take Header_size tagData;
                      version = tagHeader ! offset_version;
                      tagFlags = parseTagHeaderFlags tagHeader
                  in (case extendedHeaderSize tagData version tagFlags of
                        Inl e \<Rightarrow> Inl e
                      | Inr extSize \<Rightarrow>
                          let totalHeaderSize = Header_size + extSize;
                              bodySize = int tagSize - int totalHeaderSize
                          in (case alloc bodySize of
                                Inl e \<Rightarrow> Inl e
                              | Inr body0 \<Rightarrow>
                                  (case copy tagData body0 0 totalHeaderSize of
                                     Inl e \<Rightarrow> Inl e
                                   | Inr body \<Rightarrow>
                                       Inr (Some \<lparr>body_version = version,
                                                  body_buffer = body\<rparr>))))))"

section \<open>Merging tags (\<open>update.ts\<close>)\<close>

text \<open>
  The values of \<open>RawTags\<close>: \<open>undefined\<close>, a string, a record (an object literal with
  named fields) or an array. These are the kinds of value that the merge inspects.
\<close>

datatype jsval =
    JUndefined
  | JString string
  | JObject "(string \<times> jsval) list"
  | JArray "jsval list"

text \<open>\<open>!v\<close> is \<open>\<not> truthy v\<close>: \<open>undefined\<close> and the empty string are falsy, objects and
  arrays are truthy.\<close>

fun truthy :: "jsval \<Rightarrow> bool" where
  "truthy JUndefined = False"
| "truthy (JString s) = (s \<noteq> [])"
| "truthy (JObject fs) = True"
| "truthy (JArray elems) = True"

text \<open>\<open>Array.isArray(v)\<close> and \<open>v instanceof Array\<close>.\<close>

fun isArray :: "jsval \<Rightarrow> bool" where
  "isArray (JArray elems) = True"
| "isArray v = False"

text \<open>\<open>typeof v === "object"\<close>.\<close>

fun typeofObject :: "jsval \<Rightarrow> bool" where
  "typeofObject (JObject fs) = True"
| "typeofObject (JArray elems) = True"
| "typeofObject v = False"

text \<open>\<open>tag[compareKey]\<close> where \<open>compareKey\<close> is the name of a field of the frame's records
  (it comes from the table of frame specifications, and is neither an array index nor
  the name of an inherited property): the field's value, or \<open>undefined\<close> when the value
  has no such field.\<close>

fun getProperty :: "jsval \<Rightarrow> string \<Rightarrow> jsval" where
  "getProperty (JObject fs) key =
     (case map_of fs key of Some v \<Rightarrow> v | None \<Rightarrow> JUndefined)"
| "getProperty v key = JUndefined"

text \<open>A value used as a property key is converted to a string: \<open>undefined\<close> becomes
  "undefined", a record "[object Object]", an array its elements joined by commas
  (an \<open>undefined\<close> element contributing the empty string).\<close>

fun joinComma :: "string list \<Rightarrow> string" where
  "joinComma [] = []"
| "joinComma [s] = s"
| "joinComma (s # t # ss) = s @ '','' @ joinComma (t # ss)"

fun toPropertyKey :: "jsval \<Rightarrow> string" where
  "toPropertyKey JUndefined = ''undefined''"
| "toPropertyKey (JString s) = s"
| "toPropertyKey (JObject fs) = ''[object Object]''"
| "toPropertyKey (JArray elems) =
     joinComma (map (\<lambda>e. if e = JUndefined then [] else toPropertyKey e) elems)"

text \<open>
  \<open>compareValueToFrameIndex\<close> is an object literal \<open>{}\<close> used as a dictionary from strings to
  indices. The model keeps its own properties in a map. The object inherits the
  properties of \<open>Object.prototype\<close>, whose names are listed in \<open>objectPrototypeKeys\<close>:
  \<^item> \<open>key in obj\<close> holds for an own property and for an inherited one;
  \<^item> \<open>obj[key] = index\<close> creates or overwrites an own property, except for the key
    "__proto__", an inherited accessor whose setter ignores a number;
  \<^item> \<open>obj[key]\<close> reads the own property if there is one; for a key that is only
    inherited it yields the inherited function or object, which is not an index
    (\<open>None\<close> in \<open>getIndex\<close>).
\<close>

definition objectPrototypeKeys :: "string list" where
  "objectPrototypeKeys =
     [''constructor'', ''__defineGetter__'', ''__defineSetter__'', ''hasOwnProperty'',
      ''__lookupGetter__'', ''__lookupSetter__'', ''isPrototypeOf'',
      ''propertyIsEnumerable'', ''toString'', ''valueOf'', ''__proto__'',
      ''toLocaleString'']"

type_synonym frameIndex = "string \<rightharpoonup> nat"

definition setIndex :: "frameIndex \<Rightarrow> string \<Rightarrow> nat \<Rightarrow> frameIndex" where
  "setIndex obj key i = (if key = ''__proto__'' then obj else obj(key \<mapsto> i))"

definition hasProperty :: "frameIndex \<Rightarrow> string \<Rightarrow> bool" where
  "hasProperty obj key \<longleftrightarrow> obj key \<noteq> None \<or> key \<in> set objectPrototypeKeys"

definition getIndex :: "frameIndex \<Rightarrow> string \<Rightarrow> nat option" where
  "getIndex obj key = obj key"

text \<open>The first loop of \<open>updateFrameIfMultiple\<close>: \<open>currentTag.forEach((tag, index) => ...)\<close>,
  started with \<open>index = 0\<close> and the empty dictionary.\<close>

fun indexFrames :: "string \<Rightarrow> jsval list \<Rightarrow> nat \<Rightarrow> frameIndex \<Rightarrow> frameIndex" where
  "indexFrames compareKey [] index obj = obj"
| "indexFrames compareKey (tag # tags) index obj =
     indexFrames compareKey tags (Suc index)
       (if typeofObject tag
        then setIndex obj (toPropertyKey (getProperty tag compareKey)) index
        else obj)"

text \<open>The second loop: \<open>newTagArray.forEach((tagValue) => ...)\<close> on the array
  \<open>currentTag\<close>. \<open>currentTag[frameIndex] = v\<close> with an index overwrites that element
  (the indices of the dictionary are positions of \<open>currentTag\<close>, which only grows); with
  an inherited function or object as \<open>frameIndex\<close> it sets a property named by that value and leaves
  the elements of the array as they are.\<close>

fun mergeFrames :: "string \<Rightarrow> frameIndex \<Rightarrow> jsval list \<Rightarrow> jsval list \<Rightarrow> jsval list" where
  "mergeFrames compareKey obj [] currentTag = currentTag"
| "mergeFrames compareKey obj (tagValue # newTagArray) currentTag =
     mergeFrames compareKey obj newTagArray
       (if typeofObject tagValue \<and>
           hasProperty obj (toPropertyKey (getProperty tagValue compareKey))
        then (case getIndex obj (toPropertyKey (getProperty tagValue compareKey)) of
                Some frameIndex \<Rightarrow> currentTag[frameIndex := tagValue]
              | None \<Rightarrow> currentTag)
        else currentTag @ [tagValue])"

text \<open>\<open>FrameOptions\<close>, of which the merge reads \<open>multiple\<close> and \<open>updateCompareKey\<close> (a
  string or \<open>undefined\<close>).\<close>

record FrameOptions =
  multiple :: bool
  updateCompareKey :: "string option"

text \<open>\<open>updateFrameIfMultiple\<close> returns \<open>null\<close> (\<open>None\<close>) or an array. \<open>!compareKey\<close>
  holds for \<open>undefined\<close> and for the empty string.\<close>

definition updateFrameIfMultiple ::
  "FrameOptions \<Rightarrow> jsval \<Rightarrow> jsval \<Rightarrow> jsval list option" where
  "updateFrameIfMultiple options newTag currentTag =
     (if \<not> multiple options \<or> \<not> truthy newTag \<or> \<not> truthy currentTag \<or>
         \<not> isArray currentTag
      then None
      else case currentTag of
        JArray current \<Rightarrow>
          let newTagArray = (case newTag of JArray elems \<Rightarrow> elems | _ \<Rightarrow> [newTag])
          in (case updateCompareKey options of
                None \<Rightarrow> Some (current @ newTagArray)
              | Some compareKey \<Rightarrow>
                  if compareKey = [] then Some (current @ newTagArray)
                  else Some (mergeFrames compareKey
                               (indexFrames compareKey current 0 Map.empty)
                               newTagArray current))
      | _ \<Rightarrow> None)"

text \<open>
  \<open>updateTags\<close>. The raw tags are an object, changed in place and returned, so the
  model keeps such objects in a store and passes references: \<open>currentTags.raw\<close> is a
  reference or absent, and \<open>currentTags.raw ?? {}\<close> allocates a new empty object when it
  is absent; no other property of \<open>currentTags\<close> is read. The arrays held by the object
  are kept by value. The two functions of the
  repository that are not among the sources are parameters:
  \<open>convertWriteTagsToRawTags\<close>, whose result is given as the list of its properties in
  the order of \<open>Object.keys\<close>, and \<open>ID3Util.getSpecOptions\<close>.
\<close>

type_synonym ref = nat
type_synonym RawTags = "string \<rightharpoonup> jsval"

record store =
  objects :: "ref \<Rightarrow> RawTags"
  next_ref :: ref

record Tags =
  raw :: "ref option"

text \<open>\<open>obj[key]\<close> for a raw-tags object: \<open>undefined\<close> when the property is absent.\<close>

definition readProperty :: "RawTags \<Rightarrow> string \<Rightarrow> jsval" where
  "readProperty obj key = (case obj key of Some v \<Rightarrow> v | None \<Rightarrow> JUndefined)"

text \<open>The body of the callback of \<open>Object.keys(newRawTags).map\<close>, as a function of the
  object that \<open>currentRawTags\<close> refers to. \<open>updatedFrame || newFrame\<close>: an array is
  truthy, \<open>null\<close> is not.\<close>

definition updateFrame ::
  "(string \<Rightarrow> FrameOptions) \<Rightarrow> (string \<times> jsval) list \<Rightarrow> string \<Rightarrow> RawTags \<Rightarrow> RawTags" where
  "updateFrame getSpecOptions newRawTags frameIdentifier currentRawTags =
     (let newFrame = readProperty (map_of newRawTags) frameIdentifier;
          updatedFrame = updateFrameIfMultiple (getSpecOptions frameIdentifier) newFrame
                           (readProperty currentRawTags frameIdentifier)
      in currentRawTags(frameIdentifier \<mapsto>
           (case updatedFrame of Some elems \<Rightarrow> JArray elems | None \<Rightarrow> newFrame)))"

definition updateTags ::
  "('w \<Rightarrow> (string \<times> jsval) list) \<Rightarrow> (string \<Rightarrow> FrameOptions) \<Rightarrow> 'w \<Rightarrow> Tags \<Rightarrow> store
   \<Rightarrow> ref \<times> store" where
  "updateTags convertWriteTagsToRawTags getSpecOptions newTags currentTags s =
     (let newRawTags = convertWriteTagsToRawTags newTags;
          (currentRawTags, s1) =
            (case raw currentTags of
               Some r \<Rightarrow> (r, s)
             | None \<Rightarrow> (next_ref s,
                        s\<lparr>objects := (objects s)(next_ref s := Map.empty),
                          next_ref := Suc (next_ref s)\<rparr>));
          s2 = fold (\<lambda>frameIdentifier st.
                 st\<lparr>objects := (objects st)(currentRawTags :=
                      updateFrame getSpecOptions newRawTags frameIdentifier
                        (objects st currentRawTags))\<rparr>)
                 (map fst newRawTags) s1
      in (currentRawTags, s2))"

section \<open>What the claims say, in the words of the specification\<close>

text \<open>
  A structurally valid header at offset \<open>p\<close>, as section 4.2 of the specification lists
  the checks: the signature "ID3" occurs at \<open>p\<close>, the seven bytes that follow it are
  there, major version and revision are not \<open>0xFF\<close>, the major version is 2, 3 or 4, and
  the four size bytes at header offset 6 pass \<open>isValidEncodedSize\<close>.
\<close>

definition validHeaderAt :: "buffer \<Rightarrow> nat \<Rightarrow> bool" where
  "validHeaderAt buffer p \<longleftrightarrow>
     p + 10 \<le> length buffer \<and>
     take (length Header_identifier) (drop p buffer) = Header_identifier \<and>
     buffer ! (p + 3) \<noteq> 0xFF \<and> buffer ! (p + 4) \<noteq> 0xFF \<and>
     buffer ! (p + 3) \<in> {2, 3, 4} \<and>
     isValidEncodedSize (take 4 (drop (p + 6) buffer))"

text \<open>The value of four bytes read as a big-endian unsigned integer.\<close>

definition be32 :: "byte \<Rightarrow> byte \<Rightarrow> byte \<Rightarrow> byte \<Rightarrow> nat" where
  "be32 b0 b1 b2 b3 = ((unat b0 * 256 + unat b1) * 256 + unat b2) * 256 + unat b3"




text \<open>Sample tags: version 3 and version 4 with the extended-header flag (bit 6 of the
  flags byte) set and an extended header of 5 bytes, version 3 without the flag, and a
  version 2 tag with bit 6 set whose declared body (8 bytes) is one byte longer than
  what the buffer holds.\<close>

definition v3_extended_tag :: buffer where
  "v3_extended_tag =
     [0x49, 0x44, 0x33, 3, 0, 0x40, 0, 0, 0, 8, 0, 0, 0, 1, 7, 9, 9, 9, 5, 5]"

definition v4_extended_tag :: buffer where
  "v4_extended_tag =
     [0x49, 0x44, 0x33, 4, 0, 0x40, 0, 0, 0, 8, 0, 0, 0, 5, 7, 9, 9, 9, 5, 5]"

definition v3_plain_tag :: buffer where
  "v3_plain_tag = [0x49, 0x44, 0x33, 3, 0, 0, 0, 0, 0, 2, 9, 9, 7]"

definition v2_short_tag :: buffer where
  "v2_short_tag = [0x49, 0x44, 0x33, 2, 0, 0x40, 0, 0, 0, 8, 0, 0, 0, 5, 7, 9, 9]"

text \<open>
  The words of section 4.6 for the merge by comparison key. The comparison-key value of
  a record is the value of its field \<open>compareKey\<close>, as the string that indexes the
  dictionary; \<open>hasKey\<close> says that a value is a record with a given key value;
  \<open>overwrite\<close> puts a new record at the position the dictionary gives for its key value;
  \<open>indexed\<close> says that the dictionary has a position for the record's key value.
\<close>

definition recordKey :: "string \<Rightarrow> jsval \<Rightarrow> string" where
  "recordKey compareKey v = toPropertyKey (getProperty v compareKey)"

definition hasKey :: "string \<Rightarrow> string \<Rightarrow> jsval \<Rightarrow> bool" where
  "hasKey compareKey k v \<longleftrightarrow> typeofObject v \<and> recordKey compareKey v = k"

definition overwrite :: "string \<Rightarrow> frameIndex \<Rightarrow> jsval \<Rightarrow> jsval list \<Rightarrow> jsval list" where
  "overwrite compareKey obj v xs =
     (if typeofObject v
      then (case obj (recordKey compareKey v) of Some i \<Rightarrow> xs[i := v] | None \<Rightarrow> xs)
      else xs)"

definition indexed :: "string \<Rightarrow> frameIndex \<Rightarrow> jsval \<Rightarrow> bool" where
  "indexed compareKey obj v \<longleftrightarrow> typeofObject v \<and> obj (recordKey compareKey v) \<noteq> None"

text \<open>The value that \<open>updateTags\<close> stores under an identifier: the array returned by
  \<open>updateFrameIfMultiple\<close>, or the new frame when it returns \<open>null\<close>.\<close>

definition slotValue :: "FrameOptions \<Rightarrow> jsval \<Rightarrow> jsval \<Rightarrow> jsval" where
  "slotValue options newFrame current =
     (case updateFrameIfMultiple options newFrame current of
        Some elems \<Rightarrow> JArray elems
      | None \<Rightarrow> newFrame)"

text \<open>Sample data for the merge: the options of a user-defined text frame (multi-valued,
  compared by "description"); a table of frame options with two such frames, one
  multi-valued frame without a comparison key, and all others single-valued; a store
  with one raw-tags object; and new raw tags.\<close>

definition userDefinedTextOptions :: FrameOptions where
  "userDefinedTextOptions = \<lparr>multiple = True, updateCompareKey = Some ''description''\<rparr>"

definition sampleSpecOptions :: "string \<Rightarrow> FrameOptions" where
  "sampleSpecOptions frameIdentifier =
     (if frameIdentifier = ''TXXX'' \<or> frameIdentifier = ''WXXX''
      then \<lparr>multiple = True, updateCompareKey = Some ''description''\<rparr>
      else if frameIdentifier = ''WCOM''
      then \<lparr>multiple = True, updateCompareKey = None\<rparr>
      else \<lparr>multiple = False, updateCompareKey = None\<rparr>)"

definition sampleStore :: store where
  "sampleStore =
     \<lparr>objects = (\<lambda>r. if r = 0
                      then [''TIT2'' \<mapsto> JString ''old'',
                            ''TALB'' \<mapsto> JString ''album'',
                            ''TXXX'' \<mapsto> JArray [JObject [(''description'', JString ''abc''),
                                                        (''value'', JString ''old'')]],
                            ''WXXX'' \<mapsto> JObject [(''description'', JString ''site''),
                                                (''url'', JString ''u'')]]
                      else Map.empty),
      next_ref = 1\<rparr>"

definition inheritedKeyRawTags :: "(string \<times> jsval) list" where
  "inheritedKeyRawTags =
     [(''TXXX'', JObject [(''description'', JString ''toString''), (''value'', JString ''x'')])]"

definition sampleNewRawTags :: "(string \<times> jsval) list" where
  "sampleNewRawTags =
     [(''TIT2'', JString ''abc''),
      (''TXXX'', JObject [(''description'', JString ''abc''), (''value'', JString ''deg'')]),
      (''WXXX'', JObject [(''description'', JString ''site''), (''url'', JString ''v'')]),
      (''WCOM'', JString ''shop'')]"

section \<open>The size check\<close>

lemma and_128_eq_0_iff: "(x::byte) AND 128 = 0 \<longleftrightarrow> \<not> bit x 7"
  using and_exp_eq_0_iff_not_bit [of x 7] by simp

lemma isValidEncodedSize_4:
  "isValidEncodedSize [b0, b1, b2, b3] \<longleftrightarrow> \<not> bit (b0 OR b1 OR b2 OR b3) 7"
  by (simp add: isValidEncodedSize_def byteOrZero_def and_128_eq_0_iff)

text \<open>
  Claim C8. For every group of four bytes, \<open>isValidEncodedSize\<close> is true if and only if
  the bitwise or of the four bytes has bit 7 clear; equivalently, if and only if no byte
  of the group has its high bit set.
\<close>

theorem isValidEncodedSize_iff_high_bits_clear:
  "(isValidEncodedSize [b0, b1, b2, b3] \<longleftrightarrow> \<not> bit (b0 OR b1 OR b2 OR b3) 7) \<and>
   (isValidEncodedSize [b0, b1, b2, b3] \<longleftrightarrow>
      \<not> (bit b0 7 \<or> bit b1 7 \<or> bit b2 7 \<or> bit b3 7))"
  by (simp add: isValidEncodedSize_4 bit_or_iff)

section \<open>The tag locator\<close>

lemma indexOf_Some_occurs:
  "indexOf buffer val i = Some p \<Longrightarrow> take (length val) (drop p buffer) = val"
proof (induction buffer val i rule: indexOf.induct)
  case (1 buffer val byteOffset)
  from "1.prems" show ?case
    by (subst (asm) indexOf.simps) (auto split: if_splits dest: "1.IH")
qed

lemma indexOf_Some_first:
  "indexOf buffer val i = Some p \<Longrightarrow> i \<le> k \<Longrightarrow> k < p \<Longrightarrow>
   take (length val) (drop k buffer) \<noteq> val"
proof (induction buffer val i rule: indexOf.induct)
  case (1 buffer val byteOffset)
  show ?case
  proof (cases "k = byteOffset")
    case True
    with "1.prems" show ?thesis
      by (subst (asm) indexOf.simps) (auto split: if_splits)
  next
    case False
    with "1.prems" have "Suc byteOffset \<le> k" by simp
    with "1.prems" show ?thesis
      by (subst (asm) indexOf.simps) (auto split: if_splits dest: "1.IH")
  qed
qed

lemma indexOf_None_absent:
  "indexOf buffer val i = None \<Longrightarrow> i \<le> k \<Longrightarrow> val \<noteq> [] \<Longrightarrow>
   take (length val) (drop k buffer) \<noteq> val"
proof (induction buffer val i rule: indexOf.induct)
  case (1 buffer val byteOffset)
  show ?case
  proof (cases "length buffer < byteOffset + length val")
    case True
    with "1.prems" have "length (take (length val) (drop k buffer)) < length val"
      by (cases val) auto
    then show ?thesis by auto
  next
    case False
    show ?thesis
    proof (cases "k = byteOffset")
      case True
      with "1.prems" False show ?thesis
        by (subst (asm) indexOf.simps) (auto split: if_splits)
    next
      case neq: False
      with "1.prems" have "Suc byteOffset \<le> k" by simp
      with "1.prems" False show ?thesis
        by (subst (asm) indexOf.simps) (auto split: if_splits dest: "1.IH")
    qed
  qed
qed

lemma unat_byte_lt: "unat (b :: byte) < 256"
  using unsigned_less [of b, where ?'a = nat] by simp

lemma base256_split:
  assumes "c < (256::nat)"
  shows "(a * 256 + c) mod 256 = c" and "(a * 256 + c) div 256 = a"
  using assms by simp_all

lemma identifier_eq_iff:
  "(unat (b0::byte) * 256 + unat (b1::byte)) * 256 + unat (b2::byte) = 0x494433 \<longleftrightarrow>
   b0 = 0x49 \<and> b1 = 0x44 \<and> b2 = 0x33"
proof
  assume h: "(unat b0 * 256 + unat b1) * 256 + unat b2 = 0x494433"
  have "unat b2 = ((unat b0 * 256 + unat b1) * 256 + unat b2) mod 256"
    by (rule base256_split(1) [OF unat_byte_lt, symmetric])
  also have "\<dots> = 0x494433 mod 256" by (simp only: h)
  also have "\<dots> = 0x33" by simp
  finally have u2: "unat b2 = 0x33" .
  have "unat b0 * 256 + unat b1 = ((unat b0 * 256 + unat b1) * 256 + unat b2) div 256"
    by (rule base256_split(2) [OF unat_byte_lt, symmetric])
  also have "\<dots> = 0x494433 div 256" by (simp only: h)
  also have "\<dots> = 0x4944" by simp
  finally have h1: "unat b0 * 256 + unat b1 = 0x4944" .
  have "unat b1 = (unat b0 * 256 + unat b1) mod 256"
    by (rule base256_split(1) [OF unat_byte_lt, symmetric])
  also have "\<dots> = 0x4944 mod 256" by (simp only: h1)
  also have "\<dots> = 0x44" by simp
  finally have u1: "unat b1 = 0x44" .
  have "unat b0 = (unat b0 * 256 + unat b1) div 256"
    by (rule base256_split(2) [OF unat_byte_lt, symmetric])
  also have "\<dots> = 0x4944 div 256" by (simp only: h1)
  also have "\<dots> = 0x49" by simp
  finally have u0: "unat b0 = 0x49" .
  have "unat b0 = unat (0x49::byte)" "unat b1 = unat (0x44::byte)" "unat b2 = unat (0x33::byte)"
    using u0 u1 u2 by simp_all
  then show "b0 = 0x49 \<and> b1 = 0x44 \<and> b2 = 0x33"
    by (simp only: word_unat_eq_iff [symmetric]) 
next
  assume "b0 = 0x49 \<and> b1 = 0x44 \<and> b2 = 0x33"
  then show "(unat b0 * 256 + unat b1) * 256 + unat b2 = 0x494433" by simp
qed
lemma readUIntBE_3:
  "readUIntBE (b0 # b1 # b2 # bs) 0 3 = (unat b0 * 256 + unat b1) * 256 + unat b2"
  by (simp add: readUIntBE_def)

lemma readUIntBE_identifier:
  "readUIntBE (b0 # b1 # b2 # bs) 0 3 = 0x494433 \<longleftrightarrow>
   b0 = 0x49 \<and> b1 = 0x44 \<and> b2 = 0x33"
  by (simp only: readUIntBE_3 identifier_eq_iff)

lemma Header_identifier_nonempty: "Header_identifier \<noteq> []"
  by (simp add: Header_identifier_def)

lemma Header_identifier_occurs:
  "take (length Header_identifier) (b0 # b1 # b2 # bs) = Header_identifier \<longleftrightarrow>
   b0 = 0x49 \<and> b1 = 0x44 \<and> b2 = 0x33"
  by (simp add: Header_identifier_def)

lemma ten_bytes:
  assumes "10 \<le> length (xs :: 'a list)"
  obtains b0 b1 b2 b3 b4 b5 b6 b7 b8 b9 rest
  where "xs = b0 # b1 # b2 # b3 # b4 # b5 # b6 # b7 # b8 # b9 # rest"
  using assms by (auto simp: eval_nat_numeral Suc_le_length_iff)

lemma isValidId3Header_drop:
  "isValidId3Header (drop p buffer) \<longleftrightarrow> validHeaderAt buffer p"
proof (cases "p + 10 \<le> length buffer")
  case False
  then have "length (drop p buffer) < 10" by simp
  with False show ?thesis
    by (simp add: isValidId3Header_def validHeaderAt_def Header_size_def del: length_drop)
next
  case True
  then have "10 \<le> length (drop p buffer)" by simp
  then obtain b0 b1 b2 b3 b4 b5 b6 b7 b8 b9 rest
    where d: "drop p buffer = b0 # b1 # b2 # b3 # b4 # b5 # b6 # b7 # b8 # b9 # rest"
    by (rule ten_bytes)
  have n3: "buffer ! (p + 3) = b3" and n4: "buffer ! (p + 4) = b4"
    using True d nth_drop [of p buffer 3] nth_drop [of p buffer 4] by simp_all
  have d6: "drop (p + 6) buffer = b6 # b7 # b8 # b9 # rest"
    using d drop_drop [of 6 p buffer] by (simp add: add.commute)
  show ?thesis
    using True
    by (simp add: isValidId3Header_def validHeaderAt_def d n3 n4 d6
        readUIntBE_identifier Header_identifier_occurs Header_size_def offset_identifier_def
        offset_version_def offset_revision_def offset_size_def subarray_def Let_def)
       blast
qed

lemma findFrom_Some_iff:
  "findFrom buffer s = Some p \<longleftrightarrow>
     s \<le> p \<and> validHeaderAt buffer p \<and> (\<forall>q. s \<le> q \<and> q < p \<longrightarrow> \<not> validHeaderAt buffer q)"
proof (induction buffer s rule: findFrom.induct)
  case (1 buffer start)
  show ?case
  proof (cases "indexOf buffer Header_identifier start")
    case None
    have "\<not> validHeaderAt buffer k" if "start \<le> k" for k
      using indexOf_None_absent [OF None that] Header_identifier_nonempty
      by (simp add: validHeaderAt_def)
    with None show ?thesis
      by (subst findFrom.simps) auto
  next
    case (Some position)
    note b = indexOf_Some_bounds [OF Some]
    have before: "\<not> validHeaderAt buffer k" if "start \<le> k" "k < position" for k
      using indexOf_Some_first [OF Some that] by (simp add: validHeaderAt_def)
    show ?thesis
    proof (cases "isValidId3Header (drop position buffer)")
      case True
      then have v: "validHeaderAt buffer position" by (simp add: isValidId3Header_drop)
      have "findFrom buffer start = Some position"
        using Some True by (subst findFrom.simps) simp
      moreover have "p = position"
        if "start \<le> p" "validHeaderAt buffer p"
           "\<forall>q. start \<le> q \<and> q < p \<longrightarrow> \<not> validHeaderAt buffer q" for p
      proof -
        have "\<not> p < position" using before that by blast
        moreover have "\<not> position < p" using that v b by blast
        ultimately show ?thesis by simp
      qed
      ultimately show ?thesis using v b before by auto
    next
      case False
      then have nv: "\<not> validHeaderAt buffer position" by (simp add: isValidId3Header_drop)
      have eq: "findFrom buffer start = findFrom buffer (position + 1)"
        using Some False by (subst findFrom.simps) simp
      have none: "\<not> validHeaderAt buffer k" if "start \<le> k" "k \<le> position" for k
        using before [of k] nv that by (cases "k = position") auto
      have IH: "findFrom buffer (position + 1) = Some p \<longleftrightarrow>
        position + 1 \<le> p \<and> validHeaderAt buffer p \<and>
        (\<forall>q. position + 1 \<le> q \<and> q < p \<longrightarrow> \<not> validHeaderAt buffer q)"
        using "1.IH" [OF Some False] .
      show ?thesis
      proof
        assume "findFrom buffer start = Some p"
        with eq IH have h: "position + 1 \<le> p" "validHeaderAt buffer p"
          "\<forall>q. position + 1 \<le> q \<and> q < p \<longrightarrow> \<not> validHeaderAt buffer q" by auto
        have "\<not> validHeaderAt buffer q" if "start \<le> q" "q < p" for q
          using h(3) none [of q] that by (cases "q \<le> position") auto
        with h b show "start \<le> p \<and> validHeaderAt buffer p \<and>
          (\<forall>q. start \<le> q \<and> q < p \<longrightarrow> \<not> validHeaderAt buffer q)" by auto
      next
        assume h: "start \<le> p \<and> validHeaderAt buffer p \<and>
          (\<forall>q. start \<le> q \<and> q < p \<longrightarrow> \<not> validHeaderAt buffer q)"
        then have "\<not> p \<le> position" using none [of p] by auto
        then have "position + 1 \<le> p" by simp
        moreover have "\<forall>q. position + 1 \<le> q \<and> q < p \<longrightarrow> \<not> validHeaderAt buffer q"
          using h b by auto
        ultimately show "findFrom buffer start = Some p" using eq IH h by auto
      qed
    qed
  qed
qed

lemma findId3TagPosition_Some_iff:
  "findId3TagPosition buffer = Some p \<longleftrightarrow>
     validHeaderAt buffer p \<and> (\<forall>q<p. \<not> validHeaderAt buffer q)"
  by (simp add: findId3TagPosition_def findFrom_Some_iff)

lemma findId3TagPosition_None_iff:
  "findId3TagPosition buffer = None \<longleftrightarrow> (\<forall>q. \<not> validHeaderAt buffer q)"
proof
  assume n: "findId3TagPosition buffer = None"
  show "\<forall>q. \<not> validHeaderAt buffer q"
  proof (rule ccontr)
    assume "\<not> (\<forall>q. \<not> validHeaderAt buffer q)"
    then obtain q where q: "validHeaderAt buffer q" by blast
    define m where "m = (LEAST q. validHeaderAt buffer q)"
    have vm: "validHeaderAt buffer m"
      unfolding m_def using q by (rule LeastI)
    have "\<not> validHeaderAt buffer r" if "r < m" for r
      using not_less_Least [of r "validHeaderAt buffer"] that unfolding m_def by blast
    with vm have "findId3TagPosition buffer = Some m"
      unfolding findId3TagPosition_Some_iff by blast
    with n show False by simp
  qed
next
  assume a: "\<forall>q. \<not> validHeaderAt buffer q"
  show "findId3TagPosition buffer = None"
  proof (cases "findId3TagPosition buffer")
    case None
    then show ?thesis .
  next
    case (Some p)
    then have "validHeaderAt buffer p"
      unfolding findId3TagPosition_Some_iff by blast
    with a show ?thesis by blast
  qed
qed

text \<open>
  Claim C3. For every buffer, the locator returns the first offset at which "ID3" occurs
  and the header checks hold (version and revision not \<open>0xFF\<close>, major version 2, 3 or 4,
  the four size bytes valid); an occurrence that fails a check is passed over; and it
  reports "not found" exactly when no offset passes the checks. The four size bytes are
  at header offsets 6 to 9, so the ten bytes of the header must lie in the buffer.
\<close>

theorem findId3TagPosition_first_valid_header:
  "(findId3TagPosition buffer = Some p \<longleftrightarrow>
      validHeaderAt buffer p \<and> (\<forall>q<p. \<not> validHeaderAt buffer q)) \<and>
   (findId3TagPosition buffer = None \<longleftrightarrow> (\<forall>q. \<not> validHeaderAt buffer q))"
  using findId3TagPosition_Some_iff [of buffer p] findId3TagPosition_None_iff [of buffer]
  by blast

lemmas locate_simps =
  findId3TagPosition_def findFrom.simps indexOf.simps Header_defs isValidId3Header_def
  isValidEncodedSize_def subarray_def byteOrZero_def readUIntBE_def

theorem findId3TagPosition_first_valid_header_witness:
  "findId3TagPosition
     ([0x49, 0x44, 0x33, 3, 0, 0, 0, 0, 0x80, 5] @
      [0x49, 0x44, 0x33, 3, 0, 0, 0, 0, 0, 2, 9, 9, 7]) = Some 10 \<and>
   validHeaderAt
     ([0x49, 0x44, 0x33, 3, 0, 0, 0, 0, 0x80, 5] @
      [0x49, 0x44, 0x33, 3, 0, 0, 0, 0, 0, 2, 9, 9, 7]) 10 \<and>
   \<not> validHeaderAt
     ([0x49, 0x44, 0x33, 3, 0, 0, 0, 0, 0x80, 5] @
      [0x49, 0x44, 0x33, 3, 0, 0, 0, 0, 0, 2, 9, 9, 7]) 0"
proof -
  have "findId3TagPosition
     ([0x49, 0x44, 0x33, 3, 0, 0, 0, 0, 0x80, 5] @
      [0x49, 0x44, 0x33, 3, 0, 0, 0, 0, 0, 2, 9, 9, 7]) = Some 10"
    by (simp add: locate_simps)
  with findId3TagPosition_first_valid_header
    [of "[0x49, 0x44, 0x33, 3, 0, 0, 0, 0, 0x80, 5] @
         [0x49, 0x44, 0x33, 3, 0, 0, 0, 0, 0, 2, 9, 9, 7]" 10]
  show ?thesis by simp
qed

section \<open>Removing a tag\<close>

lemma located_valid: "findId3TagPosition data = Some p \<Longrightarrow> validHeaderAt data p"
  by (simp add: findId3TagPosition_Some_iff)


lemma decodeSize_4:
  "decodeSize [b0, b1, b2, b3] =
     Some (((unat (b0 AND 0x7F) * 128 + unat (b1 AND 0x7F)) * 128
            + unat (b2 AND 0x7F)) * 128 + unat (b3 AND 0x7F))"
  by (simp add: decodeSize_def)



text \<open>
  Claim C9. When the locator finds no valid header, \<open>removeId3Tag\<close> returns the input
  buffer unchanged (a buffer, not the failure value).
\<close>

theorem removeId3Tag_not_found:
  "findId3TagPosition data = None \<Longrightarrow> removeId3Tag data = Inr (Buf data)"
  by (simp add: removeId3Tag_def)

theorem removeId3Tag_not_found_witness:
  "findId3TagPosition [0x02, 0x06, 0x12, 0x22] = None \<and>
   removeId3Tag [0x02, 0x06, 0x12, 0x22] = Inr (Buf [0x02, 0x06, 0x12, 0x22])"
proof -
  have "findId3TagPosition [0x02, 0x06, 0x12, 0x22] = None"
    by (simp add: locate_simps)
  with removeId3Tag_not_found [of "[0x02, 0x06, 0x12, 0x22]"] show ?thesis by simp
qed







section \<open>Embedding frames\<close>

lemma unat_low7: "m < 128 \<Longrightarrow> unat ((word_of_nat m :: byte) AND 0x7F) = m"
proof -
  assume m: "m < 128"
  have "(word_of_nat m :: byte) AND 0x7F = take_bit 7 (word_of_nat m)"
    using take_bit_eq_mask [of 7 "word_of_nat m :: byte"] by (simp add: mask_eq_exp_minus_1)
  also have "\<dots> = word_of_nat (take_bit 7 m)"
    by (simp add: of_nat_take_bit) 
  also have "take_bit 7 m = m" using m by (simp add: take_bit_nat_eq_self_iff)
  finally have "(word_of_nat m :: byte) AND 0x7F = word_of_nat m" .
  moreover have "unat (word_of_nat m :: byte) = m"
    using m by (simp add: unat_of_nat)
  ultimately show ?thesis by simp
qed

lemma synchsafe_digits:
  assumes "n < 2 ^ 28"
  shows "(((n div 2 ^ 21) mod 128 * 128 + (n div 2 ^ 14) mod 128) * 128
           + (n div 2 ^ 7) mod 128) * 128 + n mod 128 = (n::nat)"
proof -
  have s3: "n div 2 ^ 7 = n div 128" by simp
  have s2: "n div 2 ^ 14 = (n div 128) div 128"
    by (simp add: div_mult2_eq [symmetric])
  have s1: "n div 2 ^ 21 = ((n div 128) div 128) div 128"
    by (simp add: div_mult2_eq [symmetric])
  have top: "((n div 128) div 128) div 128 < 128"
    using assms by (simp add: div_mult2_eq [symmetric] less_mult_imp_div_less)
  show ?thesis
    unfolding s1 s2 s3 using top by simp
qed

lemma decodeSize_encodeSize:
  "n < 2 ^ 28 \<Longrightarrow> decodeSize (encodeSize n) = Some n"
proof -
  assume n: "n < 2 ^ 28"
  have a: "unat ((word_of_nat (x mod 128) :: byte) AND 0x7F) = x mod 128" for x
    by (rule unat_low7) simp
  show ?thesis
    unfolding encodeSize_def decodeSize_def
    by (simp only: list.case a synchsafe_digits [OF n])
qed

lemma isValidEncodedSize_encodeSize: "isValidEncodedSize (encodeSize n)"
proof -
  have "\<not> bit (word_of_nat (x mod 128) :: byte) 7" for x
  proof -
    have "\<not> bit (x mod 128) 7" by (simp add: bit_iff_odd)
    then show ?thesis by (simp only: bit_of_nat_iff) simp
  qed
  then show ?thesis
    unfolding encodeSize_def isValidEncodedSize_4 by (simp only: bit_or_iff) simp
qed

lemma replicate_10: "replicate 10 (0::byte) = [0, 0, 0, 0, 0, 0, 0, 0, 0, 0]"
  by (simp add: eval_nat_numeral)

lemma embedFramesInId3Tag_eq:
  "embedFramesInId3Tag frames =
     [0x49, 0x44, 0x33, 3, 0, 0] @ encodeSize (length frames) @ frames"
proof -
  obtain e0 e1 e2 e3 where e: "encodeSize (length frames) = [e0, e1, e2, e3]"
    by (simp add: encodeSize_def)
  show ?thesis
    by (simp add: embedFramesInId3Tag_def Header_defs replicate_10 writeString_def
        writeUInt16BE_def copyInto_def e Let_def)
qed

text \<open>
  Claim C4. For every buffer of frame bytes, \<open>embedFramesInId3Tag\<close> returns a 10-byte
  header followed by the frame bytes unchanged; the header is "ID3", major version 3,
  revision 0, flags 0 and the synchsafe encoding of the byte length of the frames, which
  decodes to that length whenever the length is below \<open>2 ^ 28\<close>, the range of the
  encoder. The function takes the frame bytes only, so no version of an earlier tag can
  enter.
\<close>

theorem embedFramesInId3Tag_header:
  "embedFramesInId3Tag frames
     = Header_identifier @ [3, 0, 0] @ encodeSize (length frames) @ frames \<and>
   length (Header_identifier @ [3, 0, 0] @ encodeSize (length frames)) = Header_size \<and>
   isValidEncodedSize (encodeSize (length frames)) \<and>
   (length frames < 2 ^ 28 \<longrightarrow>
      decodeSize (subarray (embedFramesInId3Tag frames) offset_size 4)
        = Some (length frames))"
proof -
  have e: "embedFramesInId3Tag frames
     = Header_identifier @ [3, 0, 0] @ encodeSize (length frames) @ frames"
    by (simp add: embedFramesInId3Tag_eq Header_identifier_def)
  have l4: "length (encodeSize (length frames)) = 4"
    by (simp add: encodeSize_def)
  then have l: "length (Header_identifier @ [3, 0, 0] @ encodeSize (length frames))
      = Header_size"
    by (simp add: Header_identifier_def Header_size_def)
  have s: "subarray (embedFramesInId3Tag frames) offset_size 4 = encodeSize (length frames)"
    using l4 by (simp add: embedFramesInId3Tag_eq subarray_def offset_size_def)
  show ?thesis
    using e l s isValidEncodedSize_encodeSize [of "length frames"]
      decodeSize_encodeSize [of "length frames"]
    by simp
qed

theorem embedFramesInId3Tag_header_witness:
  "embedFramesInId3Tag [1, 2, 3] = [0x49, 0x44, 0x33, 3, 0, 0, 0, 0, 0, 3, 1, 2, 3] \<and>
   decodeSize (subarray (embedFramesInId3Tag [1, 2, 3]) offset_size 4) = Some 3"
proof -
  have "length [1, 2, 3 :: byte] < 2 ^ 28" by simp
  with embedFramesInId3Tag_header [of "[1, 2, 3]"]
  have a: "embedFramesInId3Tag [1, 2, 3]
      = Header_identifier @ [3, 0, 0] @ encodeSize (length [1, 2, 3 :: byte]) @ [1, 2, 3]"
    and b: "decodeSize (subarray (embedFramesInId3Tag [1, 2, 3]) offset_size 4)
      = Some (length [1, 2, 3 :: byte])"
    by blast+
  have "embedFramesInId3Tag [1, 2, 3] = [0x49, 0x44, 0x33, 3, 0, 0, 0, 0, 0, 3, 1, 2, 3]"
    unfolding a by (simp add: Header_identifier_def encodeSize_def)
  moreover have "decodeSize (subarray (embedFramesInId3Tag [1, 2, 3]) offset_size 4) = Some 3"
    unfolding b by simp
  ultimately show ?thesis by blast
qed

section \<open>The tag body\<close>

lemma and_64_neq_0_iff: "(x::byte) AND 64 \<noteq> 0 \<longleftrightarrow> bit x 6"
  using and_exp_eq_0_iff_not_bit [of x 6] by simp

lemma located_tagData:
  assumes l: "findId3TagPosition buffer = Some p"
    and t: "tagData = subarray buffer p (Header_size + n)"
  shows "Header_size \<le> length tagData"
    and "length tagData \<le> Header_size + n"
    and "i < length tagData \<Longrightarrow> tagData ! i = buffer ! (p + i)"
    and "take Header_size tagData ! 3 = buffer ! (p + 3)"
    and "take Header_size tagData ! 5 = buffer ! (p + 5)"
    and "length (take Header_size tagData) = Header_size"
proof -
  have v: "validHeaderAt buffer p" using l by (rule located_valid)
  then have b: "p + 10 \<le> length buffer" by (simp add: validHeaderAt_def)
  show 1: "Header_size \<le> length tagData"
    using b by (simp add: t subarray_def Header_size_def)
  show "length tagData \<le> Header_size + n"
    by (simp add: t subarray_def)
  show 3: "tagData ! i = buffer ! (p + i)" if "i < length tagData" for i
    using that b by (simp add: t subarray_def)
  show "take Header_size tagData ! 3 = buffer ! (p + 3)"
    using 1 3 [of 3] by (simp add: Header_size_def)
  show "take Header_size tagData ! 5 = buffer ! (p + 5)"
    using 1 3 [of 5] by (simp add: Header_size_def)
  show "length (take Header_size tagData) = Header_size"
    using 1 by simp
qed

lemma parseTagHeaderFlags_extendedHeader:
  assumes "length header = Header_size"
  shows "extendedHeader (parseTagHeaderFlags header) = Some True \<longleftrightarrow>
     (header ! 3 = 3 \<or> header ! 3 = 4) \<and> bit (header ! 5) 6"
  using assms
  by (simp add: parseTagHeaderFlags_def no_flags_def Let_def and_64_neq_0_iff)

lemma parseTagHeaderFlags_other_version:
  assumes "header ! 3 \<noteq> 3" "header ! 3 \<noteq> 4"
  shows "parseTagHeaderFlags header = no_flags"
  using assms by (simp add: parseTagHeaderFlags_def Let_def)

lemma getId3TagBody_located:
  assumes l: "findId3TagPosition buffer = Some p"
    and n: "decodeSize (subarray buffer (p + offset_size) 4) = Some n"
    and t: "tagData = subarray buffer p (Header_size + n)"
    and e: "extendedHeaderSize tagData (buffer ! (p + 3))
              (parseTagHeaderFlags (take Header_size tagData)) = Inr ext"
    and fit: "Header_size + ext \<le> length tagData"
  shows "getId3TagBody buffer =
     Inr (Some \<lparr>body_version = buffer ! (p + 3),
                body_buffer = drop (Header_size + ext) tagData
                              @ replicate (Header_size + n - length tagData) 0\<rparr>)"
proof -
  note td = located_tagData [OF l t]
  have en: "ext \<le> n" using fit td(2) by simp
  have a: "alloc (int (Header_size + n) - int (Header_size + ext))
             = Inr (replicate (n - ext) 0)"
    using en by (simp add: alloc_def)
  have ld: "length (drop (Header_size + ext) tagData) \<le> n - ext"
    using td(2) by simp
  have c: "copy tagData (replicate (n - ext) 0) 0 (Header_size + ext)
             = Inr (drop (Header_size + ext) tagData
                    @ replicate (Header_size + n - length tagData) 0)"
    using fit ld en td(2) by (simp add: copy_def copyInto_def Let_def)
  have ver: "take Header_size tagData ! offset_version = buffer ! (p + 3)"
    using td(4) by (simp add: offset_version_def)
  show ?thesis
    using l n e a c ver unfolding t
    by (simp add: getId3TagBody_def Let_def)
qed

lemma take_4_drop:
  assumes "off + 4 \<le> length xs"
  shows "take 4 (drop off xs) = [xs ! off, xs ! (off + 1), xs ! (off + 2), xs ! (off + 3)]"
proof -
  have "drop off xs = xs ! off # drop (Suc off) xs"
    using assms by (simp add: Cons_nth_drop_Suc)
  also have "drop (Suc off) xs = xs ! (off + 1) # drop (Suc (Suc off)) xs"
    using assms by (simp add: Cons_nth_drop_Suc)
  also have "drop (Suc (Suc off)) xs = xs ! (off + 2) # drop (Suc (Suc (Suc off))) xs"
    using assms Cons_nth_drop_Suc [of "Suc (Suc off)" xs] by simp
  also have "drop (Suc (Suc (Suc off))) xs
      = xs ! (off + 3) # drop (Suc (Suc (Suc (Suc off)))) xs"
    using assms Cons_nth_drop_Suc [of "Suc (Suc (Suc off))" xs]
    by (simp add: eval_nat_numeral)
  finally show ?thesis by simp
qed

lemma readUIntBE_4:
  assumes "off + 4 \<le> length xs"
  shows "readUIntBE xs off 4 = be32 (xs ! off) (xs ! (off + 1)) (xs ! (off + 2)) (xs ! (off + 3))"
  unfolding readUIntBE_def take_4_drop [OF assms] by (simp add: be32_def)

lemma located_after_header:
  assumes l: "findId3TagPosition buffer = Some p"
    and t: "tagData = subarray buffer p (Header_size + n)"
    and len: "Header_size + 4 \<le> length tagData"
  shows "readUInt32BE tagData Header_size
           = Inr (be32 (buffer ! (p + 10)) (buffer ! (p + 11)) (buffer ! (p + 12))
                       (buffer ! (p + 13)))"
    and "subarray tagData Header_size 4 = subarray buffer (p + Header_size) 4"
proof -
  note td = located_tagData [OF l t]
  have len': "10 + 4 \<le> length tagData" using len by (simp add: Header_size_def)
  have nth: "tagData ! 10 = buffer ! (p + 10)" "tagData ! 11 = buffer ! (p + 11)"
    "tagData ! 12 = buffer ! (p + 12)" "tagData ! 13 = buffer ! (p + 13)"
    using len' td(3) [of 10] td(3) [of 11] td(3) [of 12] td(3) [of 13] by simp_all
  show "readUInt32BE tagData Header_size
           = Inr (be32 (buffer ! (p + 10)) (buffer ! (p + 11)) (buffer ! (p + 12))
                       (buffer ! (p + 13)))"
    using len' readUIntBE_4 [OF len'] nth
    by (simp add: readUInt32BE_def Header_size_def)
  have "length tagData \<le> length buffer - p" by (simp add: t subarray_def)
  with len' have lb: "(p + 10) + 4 \<le> length buffer" by simp
  show "subarray tagData Header_size 4 = subarray buffer (p + Header_size) 4"
    unfolding subarray_def Header_size_def take_4_drop [OF len'] take_4_drop [OF lb]
    using nth by (simp add: add.assoc add.commute)
qed

text \<open>
  Claim C5. For a tag located at \<open>p\<close> with declared size \<open>n\<close>, \<open>tagData\<close> being the
  bytes of the tag that the buffer holds: when the extended-header flag is set and the
  version is 3, the extended header's size is 4 plus the big-endian value of the four
  bytes after the 10-byte header; when it is set and the version is 4, it is the
  synchsafe-decoded value of those four bytes; in both cases the body returned is the
  tag's data from the end of the extended header on, provided the extended header lies
  within \<open>tagData\<close>. When the flag is clear, the body is the tag's data from offset 10 on.
  A body shorter than the declared size is filled up with zero bytes.
\<close>

theorem getId3TagBody_after_extended_header:
  assumes l: "findId3TagPosition buffer = Some p"
    and n: "decodeSize (subarray buffer (p + offset_size) 4) = Some n"
    and t: "tagData = subarray buffer p (Header_size + n)"
  shows
    "(buffer ! (p + 3) = 3 \<and> bit (buffer ! (p + 5)) 6 \<and>
      len = be32 (buffer ! (p + 10)) (buffer ! (p + 11)) (buffer ! (p + 12))
              (buffer ! (p + 13)) \<and>
      Header_size + (4 + len) \<le> length tagData \<longrightarrow>
      getId3TagBody buffer =
        Inr (Some \<lparr>body_version = 3,
                   body_buffer = drop (Header_size + (4 + len)) tagData
                                 @ replicate (Header_size + n - length tagData) 0\<rparr>)) \<and>
     (buffer ! (p + 3) = 4 \<and> bit (buffer ! (p + 5)) 6 \<and>
      decodeSize (subarray buffer (p + Header_size) 4) = Some m \<and>
      Header_size + 4 \<le> length tagData \<and> Header_size + m \<le> length tagData \<longrightarrow>
      getId3TagBody buffer =
        Inr (Some \<lparr>body_version = 4,
                   body_buffer = drop (Header_size + m) tagData
                                 @ replicate (Header_size + n - length tagData) 0\<rparr>)) \<and>
     (\<not> bit (buffer ! (p + 5)) 6 \<longrightarrow>
      getId3TagBody buffer =
        Inr (Some \<lparr>body_version = buffer ! (p + 3),
                   body_buffer = drop Header_size tagData
                                 @ replicate (Header_size + n - length tagData) 0\<rparr>))"
proof (intro conjI impI)
  note td = located_tagData [OF l t]
  note flag = parseTagHeaderFlags_extendedHeader [OF td(6), unfolded td(4) td(5)]
  {
    assume a: "buffer ! (p + 3) = 3 \<and> bit (buffer ! (p + 5)) 6 \<and>
      len = be32 (buffer ! (p + 10)) (buffer ! (p + 11)) (buffer ! (p + 12))
              (buffer ! (p + 13)) \<and>
      Header_size + (4 + len) \<le> length tagData"
    then have len4: "Header_size + 4 \<le> length tagData" by simp
    have "extendedHeaderSize tagData (buffer ! (p + 3))
            (parseTagHeaderFlags (take Header_size tagData)) = Inr (4 + len)"
      using a flag located_after_header(1) [OF l t len4]
      by (simp add: extendedHeaderSize_def)
    from getId3TagBody_located [OF l n t this] a
    show "getId3TagBody buffer =
        Inr (Some \<lparr>body_version = 3,
                   body_buffer = drop (Header_size + (4 + len)) tagData
                                 @ replicate (Header_size + n - length tagData) 0\<rparr>)"
      by simp
  }
  {
    assume a: "buffer ! (p + 3) = 4 \<and> bit (buffer ! (p + 5)) 6 \<and>
      decodeSize (subarray buffer (p + Header_size) 4) = Some m \<and>
      Header_size + 4 \<le> length tagData \<and> Header_size + m \<le> length tagData"
    then have len4: "Header_size + 4 \<le> length tagData" by simp
    have "extendedHeaderSize tagData (buffer ! (p + 3))
            (parseTagHeaderFlags (take Header_size tagData)) = Inr m"
      using a flag located_after_header(2) [OF l t len4]
      by (simp add: extendedHeaderSize_def)
    from getId3TagBody_located [OF l n t this] a
    show "getId3TagBody buffer =
        Inr (Some \<lparr>body_version = 4,
                   body_buffer = drop (Header_size + m) tagData
                                 @ replicate (Header_size + n - length tagData) 0\<rparr>)"
      by simp
  }
  {
    assume a: "\<not> bit (buffer ! (p + 5)) 6"
    have "extendedHeaderSize tagData (buffer ! (p + 3))
            (parseTagHeaderFlags (take Header_size tagData)) = Inr 0"
      using a flag by (simp add: extendedHeaderSize_def)
    from getId3TagBody_located [OF l n t this] td(1)
    show "getId3TagBody buffer =
        Inr (Some \<lparr>body_version = buffer ! (p + 3),
                   body_buffer = drop Header_size tagData
                                 @ replicate (Header_size + n - length tagData) 0\<rparr>)"
      by simp
  }
qed

lemmas sample_simps =
  subarray_def offset_size_def Header_size_def decodeSize_def be32_def

theorem getId3TagBody_after_extended_header_witness:
  "getId3TagBody v3_extended_tag
     = Inr (Some \<lparr>body_version = 3, body_buffer = [9, 9, 9]\<rparr>) \<and>
   getId3TagBody v4_extended_tag
     = Inr (Some \<lparr>body_version = 4, body_buffer = [9, 9, 9]\<rparr>) \<and>
   getId3TagBody v3_plain_tag
     = Inr (Some \<lparr>body_version = 3, body_buffer = [9, 9]\<rparr>)"
proof (intro conjI)
  have l: "findId3TagPosition v3_extended_tag = Some 0"
    by (simp add: v3_extended_tag_def locate_simps)
  have n: "decodeSize (subarray v3_extended_tag (0 + offset_size) 4) = Some 8"
    by (simp add: v3_extended_tag_def sample_simps)
  from getId3TagBody_after_extended_header [OF l n refl, of 1]
  show "getId3TagBody v3_extended_tag
     = Inr (Some \<lparr>body_version = 3, body_buffer = [9, 9, 9]\<rparr>)"
    by (simp add: v3_extended_tag_def sample_simps)
next
  have l: "findId3TagPosition v4_extended_tag = Some 0"
    by (simp add: v4_extended_tag_def locate_simps)
  have n: "decodeSize (subarray v4_extended_tag (0 + offset_size) 4) = Some 8"
    by (simp add: v4_extended_tag_def sample_simps)
  from getId3TagBody_after_extended_header [OF l n refl, of _ 5]
  show "getId3TagBody v4_extended_tag
     = Inr (Some \<lparr>body_version = 4, body_buffer = [9, 9, 9]\<rparr>)"
    by (simp add: v4_extended_tag_def sample_simps)
next
  have l: "findId3TagPosition v3_plain_tag = Some 0"
    by (simp add: v3_plain_tag_def locate_simps)
  have n: "decodeSize (subarray v3_plain_tag (0 + offset_size) 4) = Some 2"
    by (simp add: v3_plain_tag_def sample_simps)
  from getId3TagBody_after_extended_header [OF l n refl]
  show "getId3TagBody v3_plain_tag
     = Inr (Some \<lparr>body_version = 3, body_buffer = [9, 9]\<rparr>)"
    by (simp add: v3_plain_tag_def sample_simps)
qed

text \<open>
  Claim C10. For a located tag whose major version is neither 3 nor 4,
  \<open>parseTagHeaderFlags\<close> returns the empty flag object, the extended header's size is 0
  whatever the flags byte holds, and the body returned is the tag's data from offset 10
  on.
\<close>

theorem getId3TagBody_other_version:
  assumes l: "findId3TagPosition buffer = Some p"
    and n: "decodeSize (subarray buffer (p + offset_size) 4) = Some n"
    and t: "tagData = subarray buffer p (Header_size + n)"
    and v: "buffer ! (p + 3) \<noteq> 3" "buffer ! (p + 3) \<noteq> 4"
  shows "parseTagHeaderFlags (take Header_size tagData) = no_flags \<and>
    extendedHeaderSize tagData (buffer ! (p + 3))
      (parseTagHeaderFlags (take Header_size tagData)) = Inr 0 \<and>
    getId3TagBody buffer =
      Inr (Some \<lparr>body_version = buffer ! (p + 3),
                 body_buffer = drop Header_size tagData
                               @ replicate (Header_size + n - length tagData) 0\<rparr>)"
proof -
  note td = located_tagData [OF l t]
  have f: "parseTagHeaderFlags (take Header_size tagData) = no_flags"
    using v td(4) by (simp add: parseTagHeaderFlags_other_version)
  have e: "extendedHeaderSize tagData (buffer ! (p + 3))
      (parseTagHeaderFlags (take Header_size tagData)) = Inr 0"
    by (simp add: f extendedHeaderSize_def no_flags_def)
  from getId3TagBody_located [OF l n t e] td(1) f e show ?thesis by simp
qed

theorem getId3TagBody_other_version_witness:
  "findId3TagPosition v2_short_tag = Some 0 \<and>
   getId3TagBody v2_short_tag
     = Inr (Some \<lparr>body_version = 2, body_buffer = [0, 0, 0, 5, 7, 9, 9, 0]\<rparr>)"
proof -
  have l: "findId3TagPosition v2_short_tag = Some 0"
    by (simp add: v2_short_tag_def locate_simps)
  have n: "decodeSize (subarray v2_short_tag (0 + offset_size) 4) = Some 8"
    by (simp add: v2_short_tag_def sample_simps)
  have v: "v2_short_tag ! (0 + 3) \<noteq> 3" "v2_short_tag ! (0 + 3) \<noteq> 4"
    by (simp_all add: v2_short_tag_def)
  from getId3TagBody_other_version [OF l n refl v] l
  show ?thesis
    by (simp add: v2_short_tag_def sample_simps)
qed

section \<open>Merging tags\<close>

lemma updateFrame_apply:
  "updateFrame getSpecOptions newRawTags k m k' =
     (if k' = k
      then Some (slotValue (getSpecOptions k) (readProperty (map_of newRawTags) k)
                   (readProperty m k))
      else m k')"
  by (simp add: updateFrame_def slotValue_def Let_def)

lemma fold_updateFrame_other:
  "k \<notin> set ks \<Longrightarrow> fold (updateFrame g new) ks m k = m k"
proof (induction ks arbitrary: m)
  case Nil
  then show ?case by simp
next
  case (Cons a ks)
  then have "fold (updateFrame g new) (a # ks) m k = updateFrame g new a m k"
    by simp
  also have "\<dots> = m k"
    using Cons.prems by (simp add: updateFrame_apply)
  finally show ?case .
qed

lemma fold_updateFrame_key:
  "distinct ks \<Longrightarrow> k \<in> set ks \<Longrightarrow>
   fold (updateFrame g new) ks m k
     = Some (slotValue (g k) (readProperty (map_of new) k) (readProperty m k))"
proof (induction ks arbitrary: m)
  case Nil
  then show ?case by simp
next
  case (Cons a ks)
  show ?case
  proof (cases "k = a")
    case True
    with Cons.prems have "k \<notin> set ks" by simp
    then have "fold (updateFrame g new) (a # ks) m k = updateFrame g new a m k"
      by (simp add: fold_updateFrame_other)
    also have "\<dots> = Some (slotValue (g a) (readProperty (map_of new) a) (readProperty m a))"
      using True by (simp add: updateFrame_apply)
    finally show ?thesis using True by simp
  next
    case False
    with Cons.prems have "k \<in> set ks" "distinct ks" by simp_all
    then have "fold (updateFrame g new) (a # ks) m k
        = Some (slotValue (g k) (readProperty (map_of new) k)
                  (readProperty (updateFrame g new a m) k))"
      using Cons.IH [of "updateFrame g new a m"] by simp
    moreover have "readProperty (updateFrame g new a m) k = readProperty m k"
      using False by (simp add: readProperty_def updateFrame_apply)
    ultimately show ?thesis by simp
  qed
qed

lemma fold_store:
  "fold (\<lambda>k st. st\<lparr>objects := (objects st)(r := f k (objects st r))\<rparr>) ks s
     = s\<lparr>objects := (objects s)(r := fold f ks (objects s r))\<rparr>"
  by (induction ks arbitrary: s) simp_all

lemma updateTags_existing:
  assumes "raw currentTags = Some r"
  shows "updateTags conv g newTags currentTags s
     = (r, s\<lparr>objects := (objects s)(r :=
              fold (updateFrame g (conv newTags)) (map fst (conv newTags)) (objects s r))\<rparr>)"
  using assms by (simp add: updateTags_def Let_def fold_store)

lemma updateTags_absent:
  assumes "raw currentTags = None"
  shows "updateTags conv g newTags currentTags s
     = (next_ref s,
        s\<lparr>objects := (objects s)(next_ref s :=
              fold (updateFrame g (conv newTags)) (map fst (conv newTags)) Map.empty),
          next_ref := Suc (next_ref s)\<rparr>)"
  using assms by (simp add: updateTags_def Let_def fold_store)

lemma updateFrameIfMultiple_None:
  assumes "\<not> multiple options \<or> current = JUndefined \<or> \<not> isArray current"
  shows "updateFrameIfMultiple options newFrame current = None"
  using assms by (auto simp: updateFrameIfMultiple_def)

lemmas merge_simps =
  updateFrameIfMultiple_def userDefinedTextOptions_def hasProperty_def getIndex_def
  setIndex_def objectPrototypeKeys_def

text \<open>
  Claim C6. For every entry of the new raw tags: if the frame's options say it is not
  multi-valued, or the existing raw tags have no value under the identifier, or the
  existing value is not an array, then after the merge the identifier maps to the new
  value. The existing raw tags are the object \<open>currentTags.raw\<close>, or empty when there is
  none.
\<close>

theorem updateTags_replaces:
  assumes d: "distinct (map fst (conv newTags))"
    and m: "(k, newFrame) \<in> set (conv newTags)"
    and u: "updateTags conv g newTags currentTags s = (r', s')"
    and e: "existing = (case raw currentTags of Some r \<Rightarrow> objects s r | None \<Rightarrow> Map.empty)"
    and c: "\<not> multiple (g k) \<or> existing k = None \<or> (\<exists>v. existing k = Some v \<and> \<not> isArray v)"
  shows "objects s' r' k = Some newFrame"
proof -
  have new: "readProperty (map_of (conv newTags)) k = newFrame"
    using d m by (simp add: readProperty_def)
  have k: "k \<in> set (map fst (conv newTags))"
    using m by force
  have cur: "\<not> multiple (g k) \<or> readProperty existing k = JUndefined \<or>
      \<not> isArray (readProperty existing k)"
    using c by (auto simp: readProperty_def)
  have "objects s' r' k
      = Some (slotValue (g k) (readProperty (map_of (conv newTags)) k)
                (readProperty existing k))"
  proof (cases "raw currentTags")
    case None
    with u e show ?thesis
      by (auto simp: updateTags_absent fold_updateFrame_key [OF d k])
  next
    case (Some r)
    with u e show ?thesis
      by (auto simp: updateTags_existing fold_updateFrame_key [OF d k])
  qed
  then show ?thesis
    using new updateFrameIfMultiple_None [OF cur] by (simp add: slotValue_def)
qed

theorem updateTags_replaces_witness:
  "objects (snd (updateTags id sampleSpecOptions sampleNewRawTags
                   \<lparr>raw = Some 0\<rparr> sampleStore))
     (fst (updateTags id sampleSpecOptions sampleNewRawTags
             \<lparr>raw = Some 0\<rparr> sampleStore)) ''TIT2'' = Some (JString ''abc'') \<and>
   objects (snd (updateTags id sampleSpecOptions sampleNewRawTags
                   \<lparr>raw = Some 0\<rparr> sampleStore))
     (fst (updateTags id sampleSpecOptions sampleNewRawTags
             \<lparr>raw = Some 0\<rparr> sampleStore)) ''WCOM'' = Some (JString ''shop'') \<and>
   objects (snd (updateTags id sampleSpecOptions sampleNewRawTags
                   \<lparr>raw = Some 0\<rparr> sampleStore))
     (fst (updateTags id sampleSpecOptions sampleNewRawTags
             \<lparr>raw = Some 0\<rparr> sampleStore)) ''WXXX''
     = Some (JObject [(''description'', JString ''site''), (''url'', JString ''v'')])"
proof -
  note inst = updateTags_replaces [where conv = id and newTags = sampleNewRawTags
        and g = sampleSpecOptions and currentTags = "\<lparr>raw = Some 0\<rparr>" and s = sampleStore
        and r' = "fst (updateTags id sampleSpecOptions sampleNewRawTags
                         \<lparr>raw = Some 0\<rparr> sampleStore)"
        and s' = "snd (updateTags id sampleSpecOptions sampleNewRawTags
                         \<lparr>raw = Some 0\<rparr> sampleStore)"
        and existing = "objects sampleStore 0"]
  have "objects (snd (updateTags id sampleSpecOptions sampleNewRawTags
                   \<lparr>raw = Some 0\<rparr> sampleStore))
     (fst (updateTags id sampleSpecOptions sampleNewRawTags
             \<lparr>raw = Some 0\<rparr> sampleStore)) ''TIT2'' = Some (JString ''abc'')"
    using inst [where k = "''TIT2''" and newFrame = "JString ''abc''"]
    by (simp add: sampleNewRawTags_def sampleSpecOptions_def)
  moreover have "objects (snd (updateTags id sampleSpecOptions sampleNewRawTags
                   \<lparr>raw = Some 0\<rparr> sampleStore))
     (fst (updateTags id sampleSpecOptions sampleNewRawTags
             \<lparr>raw = Some 0\<rparr> sampleStore)) ''WCOM'' = Some (JString ''shop'')"
    using inst [where k = "''WCOM''" and newFrame = "JString ''shop''"]
    by (simp add: sampleNewRawTags_def sampleStore_def)
  moreover have "objects (snd (updateTags id sampleSpecOptions sampleNewRawTags
                   \<lparr>raw = Some 0\<rparr> sampleStore))
     (fst (updateTags id sampleSpecOptions sampleNewRawTags
             \<lparr>raw = Some 0\<rparr> sampleStore)) ''WXXX''
     = Some (JObject [(''description'', JString ''site''), (''url'', JString ''v'')])"
    using inst [where k = "''WXXX''"
        and newFrame = "JObject [(''description'', JString ''site''), (''url'', JString ''v'')]"]
    by (simp add: sampleNewRawTags_def sampleStore_def)
  ultimately show ?thesis by blast
qed

text \<open>
  What \<open>updateTags\<close> does to the store. When \<open>currentTags.raw\<close> exists, it returns the
  reference to that very object and leaves every other object of the store as it was;
  in the object, every identifier that is not a key of the new raw tags keeps its
  value, and every identifier that is one holds the array returned by
  \<open>updateFrameIfMultiple\<close> for the old and the new value or, when that returns \<open>null\<close>,
  the new value.
\<close>

lemma updateTags_in_place:
  assumes r: "raw currentTags = Some r"
    and d: "distinct (map fst (conv newTags))"
    and u: "updateTags conv g newTags currentTags s = (r', s')"
  shows "r' = r \<and>
    (\<forall>q. q \<noteq> r \<longrightarrow> objects s' q = objects s q) \<and>
    (\<forall>k. k \<notin> fst ` set (conv newTags) \<longrightarrow> objects s' r k = objects s r k) \<and>
    (\<forall>k newFrame. (k, newFrame) \<in> set (conv newTags) \<longrightarrow>
       objects s' r k =
         Some (case updateFrameIfMultiple (g k) newFrame (readProperty (objects s r) k) of
                 Some elems \<Rightarrow> JArray elems
               | None \<Rightarrow> newFrame))"
proof -
  from u r have r': "r' = r"
    and s': "s' = s\<lparr>objects := (objects s)(r :=
              fold (updateFrame g (conv newTags)) (map fst (conv newTags)) (objects s r))\<rparr>"
    by (auto simp: updateTags_existing)
  have other: "\<forall>q. q \<noteq> r \<longrightarrow> objects s' q = objects s q"
    by (simp add: s')
  have absent: "\<forall>k. k \<notin> fst ` set (conv newTags) \<longrightarrow> objects s' r k = objects s r k"
    by (simp add: s' fold_updateFrame_other)
  have present: "objects s' r k =
         Some (case updateFrameIfMultiple (g k) newFrame (readProperty (objects s r) k) of
                 Some elems \<Rightarrow> JArray elems
               | None \<Rightarrow> newFrame)"
    if m: "(k, newFrame) \<in> set (conv newTags)" for k newFrame
  proof -
    have new: "readProperty (map_of (conv newTags)) k = newFrame"
      using d m by (simp add: readProperty_def)
    have k: "k \<in> set (map fst (conv newTags))"
      using m by force
    show ?thesis
      using fold_updateFrame_key [OF d k, of g "conv newTags" "objects s r"] new
      by (simp add: s' slotValue_def)
  qed
  from r' other absent present show ?thesis by blast
qed

lemma updateTags_in_place_example:
  "fst (updateTags id sampleSpecOptions sampleNewRawTags \<lparr>raw = Some 0\<rparr> sampleStore) = 0 \<and>
   objects (snd (updateTags id sampleSpecOptions sampleNewRawTags
                   \<lparr>raw = Some 0\<rparr> sampleStore)) 0 ''TALB'' = Some (JString ''album'') \<and>
   objects (snd (updateTags id sampleSpecOptions sampleNewRawTags
                   \<lparr>raw = Some 0\<rparr> sampleStore)) 0 ''TIT2'' = Some (JString ''abc'') \<and>
   objects (snd (updateTags id sampleSpecOptions sampleNewRawTags
                   \<lparr>raw = Some 0\<rparr> sampleStore)) 0 ''TXXX''
     = Some (JArray [JObject [(''description'', JString ''abc''),
                              (''value'', JString ''deg'')]]) \<and>
   objects (snd (updateTags id sampleSpecOptions sampleNewRawTags
                   \<lparr>raw = Some 0\<rparr> sampleStore)) 1 = Map.empty"
proof -
  have t: "fst (updateTags id sampleSpecOptions sampleNewRawTags \<lparr>raw = Some 0\<rparr> sampleStore)
      = 0 \<and>
    (\<forall>q. q \<noteq> 0 \<longrightarrow>
       objects (snd (updateTags id sampleSpecOptions sampleNewRawTags \<lparr>raw = Some 0\<rparr>
                       sampleStore)) q = objects sampleStore q) \<and>
    (\<forall>k. k \<notin> fst ` set (id sampleNewRawTags) \<longrightarrow>
       objects (snd (updateTags id sampleSpecOptions sampleNewRawTags \<lparr>raw = Some 0\<rparr>
                       sampleStore)) 0 k = objects sampleStore 0 k) \<and>
    (\<forall>k newFrame. (k, newFrame) \<in> set (id sampleNewRawTags) \<longrightarrow>
       objects (snd (updateTags id sampleSpecOptions sampleNewRawTags \<lparr>raw = Some 0\<rparr>
                       sampleStore)) 0 k =
         Some (case updateFrameIfMultiple (sampleSpecOptions k) newFrame
                      (readProperty (objects sampleStore 0) k) of
                 Some elems \<Rightarrow> JArray elems
               | None \<Rightarrow> newFrame))"
    by (rule updateTags_in_place [where conv = id and currentTags = "\<lparr>raw = Some 0\<rparr>"])
       (simp_all add: sampleNewRawTags_def)
  have a: "''TALB'' \<notin> fst ` set (id sampleNewRawTags)"
    by (simp add: sampleNewRawTags_def)
  have m: "(''TIT2'', JString ''abc'') \<in> set (id sampleNewRawTags)"
    "(''TXXX'', JObject [(''description'', JString ''abc''), (''value'', JString ''deg'')])
       \<in> set (id sampleNewRawTags)"
    by (simp_all add: sampleNewRawTags_def)
  have 1: "fst (updateTags id sampleSpecOptions sampleNewRawTags \<lparr>raw = Some 0\<rparr>
      sampleStore) = 0"
    using t by blast
  have 2: "objects (snd (updateTags id sampleSpecOptions sampleNewRawTags
                   \<lparr>raw = Some 0\<rparr> sampleStore)) 0 ''TALB'' = objects sampleStore 0 ''TALB''"
    using t a by blast
  have 3: "objects (snd (updateTags id sampleSpecOptions sampleNewRawTags
                   \<lparr>raw = Some 0\<rparr> sampleStore)) 0 ''TIT2'' =
     Some (case updateFrameIfMultiple (sampleSpecOptions ''TIT2'') (JString ''abc'')
                  (readProperty (objects sampleStore 0) ''TIT2'') of
                 Some elems \<Rightarrow> JArray elems
               | None \<Rightarrow> JString ''abc'')"
    using t m(1) by blast
  have 4: "objects (snd (updateTags id sampleSpecOptions sampleNewRawTags
                   \<lparr>raw = Some 0\<rparr> sampleStore)) 0 ''TXXX'' =
     Some (case updateFrameIfMultiple (sampleSpecOptions ''TXXX'')
                  (JObject [(''description'', JString ''abc''), (''value'', JString ''deg'')])
                  (readProperty (objects sampleStore 0) ''TXXX'') of
                 Some elems \<Rightarrow> JArray elems
               | None \<Rightarrow>
                   JObject [(''description'', JString ''abc''), (''value'', JString ''deg'')])"
    using t m(2) by blast
  have 5: "objects (snd (updateTags id sampleSpecOptions sampleNewRawTags
                   \<lparr>raw = Some 0\<rparr> sampleStore)) 1 = objects sampleStore 1"
    using t by simp
  show ?thesis
    using 1 2 3 4 5
    by (simp add: sampleStore_def sampleSpecOptions_def readProperty_def merge_simps)
qed

text \<open>
  Claim C7 says that the merge returns the existing raw tags, changed in place, that
  identifiers absent from the new tags keep their values, and that every identifier
  present in the new tags has its slot replaced, merged into, or appended to. The first
  two parts hold (lemma \<open>updateTags_in_place\<close>). The third fails where the merge by
  comparison key loses a record: with new tags that hold a user-defined text frame of
  description "toString", the slot of the present identifier "TXXX" is after the merge
  what it was before, and the new record is nowhere in it.
\<close>

theorem updateTags_inherited_key_slot_unchanged:
  "fst (updateTags id sampleSpecOptions inheritedKeyRawTags \<lparr>raw = Some 0\<rparr> sampleStore)
     = 0 \<and>
   objects (snd (updateTags id sampleSpecOptions inheritedKeyRawTags
                   \<lparr>raw = Some 0\<rparr> sampleStore)) 0 ''TXXX''
     = Some (JArray [JObject [(''description'', JString ''abc''),
                              (''value'', JString ''old'')]]) \<and>
   objects sampleStore 0 ''TXXX''
     = Some (JArray [JObject [(''description'', JString ''abc''),
                              (''value'', JString ''old'')]])"
  by (simp add: updateTags_existing inheritedKeyRawTags_def updateFrame_def
      sampleStore_def sampleSpecOptions_def readProperty_def merge_simps)

text \<open>So the slot has not been replaced by the new record, and the new record has not
  been appended to it.\<close>

theorem updateTags_inherited_key_slot_unchanged_witness:
  "objects (snd (updateTags id sampleSpecOptions inheritedKeyRawTags
                   \<lparr>raw = Some 0\<rparr> sampleStore)) 0 ''TXXX''
     \<noteq> Some (JObject [(''description'', JString ''toString''), (''value'', JString ''x'')]) \<and>
   objects (snd (updateTags id sampleSpecOptions inheritedKeyRawTags
                   \<lparr>raw = Some 0\<rparr> sampleStore)) 0 ''TXXX''
     \<noteq> Some (JArray [JObject [(''description'', JString ''abc''),
                               (''value'', JString ''old'')],
                      JObject [(''description'', JString ''toString''),
                               (''value'', JString ''x'')]])"
  using updateTags_inherited_key_slot_unchanged by simp

subsection \<open>Merging by comparison key\<close>

text \<open>
  The dictionary built from the existing array maps a key value to the position of the
  last existing record with that key value, and has no entry for a key value that no
  existing record has, nor for "__proto__".
\<close>

lemma setIndex_apply:
  "setIndex obj key i k = (if k = key \<and> key \<noteq> ''__proto__'' then Some i else obj k)"
  by (simp add: setIndex_def)

lemma indexFrames_proto:
  "indexFrames ck tags n obj ''__proto__'' = obj ''__proto__''"
  by (induction tags arbitrary: n obj) (auto simp: setIndex_apply)

lemma indexFrames_none:
  "\<forall>t \<in> set tags. \<not> hasKey ck k t \<Longrightarrow> indexFrames ck tags n obj k = obj k"
  by (induction tags arbitrary: n obj) (auto simp: setIndex_apply hasKey_def recordKey_def)

lemma indexFrames_last:
  assumes "k \<noteq> ''__proto__''" "hasKey ck k t" "\<forall>u \<in> set us. \<not> hasKey ck k u"
  shows "indexFrames ck (ts @ t # us) n obj k = Some (n + length ts)"
  using assms
proof (induction ts arbitrary: n obj)
  case Nil
  then have "indexFrames ck us (Suc n) (setIndex obj k n) k = Some n"
    by (simp add: indexFrames_none setIndex_apply)
  with Nil show ?case
    by (simp add: hasKey_def recordKey_def)
next
  case (Cons a ts)
  then show ?case by simp
qed

lemma indexFrames_Some_iff:
  "indexFrames ck cur 0 Map.empty k = Some i \<longleftrightarrow>
     k \<noteq> ''__proto__'' \<and>
     (\<exists>ts t us. cur = ts @ t # us \<and> i = length ts \<and> hasKey ck k t \<and>
                (\<forall>u \<in> set us. \<not> hasKey ck k u))"
proof (cases "k \<noteq> ''__proto__'' \<and> (\<exists>t \<in> set cur. hasKey ck k t)")
  case True
  then obtain ts t us where s: "cur = ts @ t # us" "hasKey ck k t"
    "\<forall>u \<in> set us. \<not> hasKey ck k u"
    using split_list_last_prop [of cur "hasKey ck k"] by blast
  with True have e: "indexFrames ck cur 0 Map.empty k = Some (length ts)"
    using indexFrames_last [of k ck t us ts 0 Map.empty] by simp
  show ?thesis
  proof
    assume "indexFrames ck cur 0 Map.empty k = Some i"
    with e have "i = length ts" by simp
    with True s show "k \<noteq> ''__proto__'' \<and>
     (\<exists>ts t us. cur = ts @ t # us \<and> i = length ts \<and> hasKey ck k t \<and>
                (\<forall>u \<in> set us. \<not> hasKey ck k u))" by blast
  next
    assume "k \<noteq> ''__proto__'' \<and>
     (\<exists>ts t us. cur = ts @ t # us \<and> i = length ts \<and> hasKey ck k t \<and>
                (\<forall>u \<in> set us. \<not> hasKey ck k u))"
    then obtain ts' t' us' where s': "cur = ts' @ t' # us'" "i = length ts'"
      "hasKey ck k t'" "\<forall>u \<in> set us'. \<not> hasKey ck k u" by blast
    with True show "indexFrames ck cur 0 Map.empty k = Some i"
      using indexFrames_last [of k ck t' us' ts' 0 Map.empty] by simp
  qed
next
  case False
  then have "indexFrames ck cur 0 Map.empty k = None"
    using indexFrames_proto [of ck cur 0 Map.empty]
      indexFrames_none [of cur ck k 0 Map.empty] by auto
  moreover have "\<not> (k \<noteq> ''__proto__'' \<and>
     (\<exists>ts t us. cur = ts @ t # us \<and> i = length ts \<and> hasKey ck k t \<and>
                (\<forall>u \<in> set us. \<not> hasKey ck k u)))"
    using False by auto
  ultimately show ?thesis by simp
qed

lemma indexFrames_bound:
  "indexFrames ck cur 0 Map.empty k = Some i \<Longrightarrow> i < length cur"
  by (auto simp: indexFrames_Some_iff)

lemma length_overwrite [simp]: "length (overwrite ck obj v xs) = length xs"
  by (simp add: overwrite_def split: option.splits)

lemma mergeFrames_decompose:
  assumes "\<forall>k i. obj k = Some i \<longrightarrow> i < length cur"
    and "\<forall>v \<in> set news. typeofObject v \<longrightarrow> obj (recordKey ck v) = None \<longrightarrow>
           recordKey ck v \<notin> set objectPrototypeKeys"
  shows "mergeFrames ck obj news (cur @ app)
     = fold (overwrite ck obj) news cur @ app @ filter (\<lambda>v. \<not> indexed ck obj v) news"
  using assms
proof (induction news arbitrary: cur app)
  case Nil
  then show ?case by simp
next
  case (Cons v news)
  have rest: "\<forall>v \<in> set news. typeofObject v \<longrightarrow> obj (recordKey ck v) = None \<longrightarrow>
           recordKey ck v \<notin> set objectPrototypeKeys"
    using Cons.prems(2) by simp
  show ?case
  proof (cases "indexed ck obj v")
    case True
    then obtain i where i: "obj (recordKey ck v) = Some i" and o: "typeofObject v"
      by (auto simp: indexed_def)
    then have b: "i < length cur" using Cons.prems(1) by blast
    have step: "mergeFrames ck obj (v # news) (cur @ app)
        = mergeFrames ck obj news (overwrite ck obj v cur @ app)"
      using i o b
      by (simp add: hasProperty_def getIndex_def recordKey_def [symmetric] overwrite_def
          list_update_append)
    have "\<forall>k i. obj k = Some i \<longrightarrow> i < length (overwrite ck obj v cur)"
      using Cons.prems(1) by simp
    from Cons.IH [OF this rest, of app] step True show ?thesis by simp
  next
    case False
    then have n: "\<not> (typeofObject v \<and> hasProperty obj (recordKey ck v))"
      using Cons.prems(2) by (auto simp: indexed_def hasProperty_def)
    have ov: "overwrite ck obj v cur = cur"
      using False by (auto simp: overwrite_def indexed_def)
    have step: "mergeFrames ck obj (v # news) (cur @ app)
        = mergeFrames ck obj news (cur @ (app @ [v]))"
      using n by (auto simp: recordKey_def [symmetric])
    from Cons.IH [OF Cons.prems(1) rest, of "app @ [v]"] step False ov
    show ?thesis by simp
  qed
qed

lemma indexed_iff:
  "indexed ck (indexFrames ck cur 0 Map.empty) v \<longleftrightarrow>
     typeofObject v \<and> recordKey ck v \<noteq> ''__proto__'' \<and>
     (\<exists>t \<in> set cur. hasKey ck (recordKey ck v) t)"
proof -
  have "(\<exists>i. indexFrames ck cur 0 Map.empty (recordKey ck v) = Some i) \<longleftrightarrow>
      recordKey ck v \<noteq> ''__proto__'' \<and> (\<exists>t \<in> set cur. hasKey ck (recordKey ck v) t)"
    unfolding indexFrames_Some_iff
    using split_list_last_prop [of cur "hasKey ck (recordKey ck v)"] by auto
  then show ?thesis by (auto simp: indexed_def)
qed

lemma updateFrameIfMultiple_compareKey:
  assumes "multiple options" "updateCompareKey options = Some ck" "ck \<noteq> []"
    and "truthy newTag"
    and news: "news = (case newTag of JArray elems \<Rightarrow> elems | _ \<Rightarrow> [newTag])"
    and obj: "obj = indexFrames ck cur 0 Map.empty"
    and safe: "\<forall>v \<in> set news. typeofObject v \<longrightarrow> obj (recordKey ck v) = None \<longrightarrow>
           recordKey ck v \<notin> set objectPrototypeKeys"
  shows "updateFrameIfMultiple options newTag (JArray cur)
     = Some (fold (overwrite ck obj) news cur @ filter (\<lambda>v. \<not> indexed ck obj v) news)"
proof -
  have b: "\<forall>k i. obj k = Some i \<longrightarrow> i < length cur"
    unfolding obj using indexFrames_bound by blast
  have "updateFrameIfMultiple options newTag (JArray cur) = Some (mergeFrames ck obj news cur)"
    using assms(1-4) by (simp add: updateFrameIfMultiple_def news obj)
  with mergeFrames_decompose [OF b safe, of "[]"] show ?thesis by simp
qed

lemma updateFrameIfMultiple_no_compareKey:
  assumes "multiple options" "updateCompareKey options = None \<or> updateCompareKey options = Some []"
    and "truthy newTag"
  shows "updateFrameIfMultiple options newTag (JArray cur)
     = Some (cur @ (case newTag of JArray elems \<Rightarrow> elems | _ \<Rightarrow> [newTag]))"
  using assms by (auto simp: updateFrameIfMultiple_def)

lemma updateFrameIfMultiple_overwrites_last:
  assumes "multiple options" "updateCompareKey options = Some ck" "ck \<noteq> []"
    and v: "v = JObject fs" "recordKey ck v \<noteq> ''__proto__''"
    and cur: "cur = ts @ t # us" "hasKey ck (recordKey ck v) t"
      "\<forall>u \<in> set us. \<not> hasKey ck (recordKey ck v) u"
  shows "updateFrameIfMultiple options v (JArray cur) = Some (ts @ v # us)"
proof -
  define obj where "obj = indexFrames ck cur 0 Map.empty"
  have i: "obj (recordKey ck v) = Some (length ts)"
    unfolding obj_def indexFrames_Some_iff using v cur by blast
  have "updateFrameIfMultiple options v (JArray cur)
     = Some (fold (overwrite ck obj) [v] cur @ filter (\<lambda>v. \<not> indexed ck obj v) [v])"
    using assms(1-3) v(1) i
    by (intro updateFrameIfMultiple_compareKey) (simp_all add: obj_def)
  then show ?thesis
    using i v(1) cur(1) by (simp add: overwrite_def indexed_def)
qed

lemma updateFrameIfMultiple_appends_new:
  assumes "multiple options" "updateCompareKey options = Some ck" "ck \<noteq> []"
    and v: "v = JObject fs" "recordKey ck v \<notin> set objectPrototypeKeys"
    and cur: "\<forall>t \<in> set cur. \<not> hasKey ck (recordKey ck v) t"
  shows "updateFrameIfMultiple options v (JArray cur) = Some (cur @ [v])"
proof -
  define obj where "obj = indexFrames ck cur 0 Map.empty"
  have n: "\<not> indexed ck obj v"
    unfolding obj_def indexed_iff using cur by blast
  have "updateFrameIfMultiple options v (JArray cur)
     = Some (fold (overwrite ck obj) [v] cur @ filter (\<lambda>v. \<not> indexed ck obj v) [v])"
    using assms(1-3) v
    by (intro updateFrameIfMultiple_compareKey) (simp_all add: obj_def)
  then show ?thesis
    using n v(1) by (auto simp: overwrite_def indexed_def)
qed

text \<open>
  Claim C1 says that a new record whose comparison-key value matches no existing record
  is appended. The lemmas above show that the code does so, and overwrites in place on a
  match, as long as no new record's key value is a name that every object inherits and
  that no existing record has. The code decides "matches" with \<open>in\<close> on an object
  literal, which also holds for the inherited names. Merging a user-defined text frame
  whose description is "toString" into a frame that has one record with description
  "abc" returns the existing record alone: the new record is neither appended nor
  written over an element.
\<close>

theorem updateFrameIfMultiple_inherited_key_dropped:
  "updateFrameIfMultiple userDefinedTextOptions
     (JObject [(''description'', JString ''toString''), (''value'', JString ''x'')])
     (JArray [JObject [(''description'', JString ''abc''), (''value'', JString ''deg'')]])
   = Some [JObject [(''description'', JString ''abc''), (''value'', JString ''deg'')]]"
  by (simp add: merge_simps)

text \<open>So the merged array is not the existing record followed by the new one, and the
  new record has not replaced the existing one.\<close>

theorem updateFrameIfMultiple_inherited_key_dropped_witness:
  "updateFrameIfMultiple userDefinedTextOptions
     (JObject [(''description'', JString ''toString''), (''value'', JString ''x'')])
     (JArray [JObject [(''description'', JString ''abc''), (''value'', JString ''deg'')]])
   \<noteq> Some [JObject [(''description'', JString ''abc''), (''value'', JString ''deg'')],
            JObject [(''description'', JString ''toString''), (''value'', JString ''x'')]] \<and>
   updateFrameIfMultiple userDefinedTextOptions
     (JObject [(''description'', JString ''toString''), (''value'', JString ''x'')])
     (JArray [JObject [(''description'', JString ''abc''), (''value'', JString ''deg'')]])
   \<noteq> Some [JObject [(''description'', JString ''toString''), (''value'', JString ''x'')]]"
  using updateFrameIfMultiple_inherited_key_dropped by simp

text \<open>With an ordinary description the same merge appends, and it overwrites in place when
  the description is that of an existing record.\<close>

lemma updateFrameIfMultiple_new_description_appended:
  "updateFrameIfMultiple userDefinedTextOptions
     (JObject [(''description'', JString ''abcd''), (''value'', JString ''x'')])
     (JArray [JObject [(''description'', JString ''abc''), (''value'', JString ''deg'')]])
   = Some [JObject [(''description'', JString ''abc''), (''value'', JString ''deg'')],
           JObject [(''description'', JString ''abcd''), (''value'', JString ''x'')]]"
  by (simp add: merge_simps)

lemma updateFrameIfMultiple_same_description_replaced:
  "updateFrameIfMultiple userDefinedTextOptions
     (JObject [(''description'', JString ''abc''), (''value'', JString ''x'')])
     (JArray [JObject [(''description'', JString ''abc''), (''value'', JString ''deg'')],
              JObject [(''description'', JString ''abcd''), (''value'', JString ''efgh'')]])
   = Some [JObject [(''description'', JString ''abc''), (''value'', JString ''x'')],
           JObject [(''description'', JString ''abcd''), (''value'', JString ''efgh'')]]"
  by (simp add: merge_simps)

end
